theory Spec2Isabelle
  imports Main "HOL-Library.Word" "HOL-Library.AList" "HOL-Library.Multiset"
begin

section \<open>JavaScript values\<close>

text \<open>
  The values that cross the transport boundary. A number is kept as an integer: the codec
  and the Reference never compute with numbers, they only pass them on. A \<open>Date\<close> holds
  its time value in milliseconds, \<open>None\<close> for an invalid date. An \<open>ArrayBuffer\<close> is its
  byte sequence, a \<open>PathReference\<close> its path string. An object lists its own enumerable
  properties in the order \<open>Object.keys\<close> enumerates them; a well-formed object has no
  key twice. Prototype properties are not part of the model.
\<close>

datatype jsval =
    JUndefined
  | JNull
  | JBool bool
  | JNumber int
  | JString string
  | JDate "int option"
  | JBinary "8 word list"
  | JPathRef string
  | JArray "jsval list"
  | JObject "(string \<times> jsval) list"

text \<open>What a JavaScript statement can throw in the modelled code. \<open>Unmodelled\<close> marks a
  step of JavaScript outside this model (an expando property on a \<open>Date\<close>, a bracket
  segment that is no decimal index): no theorem below concludes anything from it.\<close>

datatype error =
    TypeError
  | RangeError
  | Error string
  | Thrown string
  | Unmodelled

fun typeof :: "jsval \<Rightarrow> string" where
  "typeof JUndefined = ''undefined''"
| "typeof (JBool b) = ''boolean''"
| "typeof (JNumber n) = ''number''"
| "typeof (JString s) = ''string''"
| "typeof v = ''object''"

section \<open>Path handling of a Reference\<close>

text \<open>\<open>path.replace(/^\/|\/$/g, "")\<close>: the global replace removes a separator at the
  start of the string, and a separator at the end of what follows.\<close>

definition trim_slashes :: "string \<Rightarrow> string" where
  "trim_slashes p =
     (let p1 = (if p \<noteq> [] \<and> hd p = CHR ''/'' then tl p else p)
      in if p1 \<noteq> [] \<and> last p1 = CHR ''/'' then butlast p1 else p1)"

text \<open>\<open>path.substr(path.lastIndexOf("/") + 1)\<close>: what follows the last separator, the
  whole string when there is none.\<close>

definition after_last_slash :: "string \<Rightarrow> string" where
  "after_last_slash p = rev (takeWhile (\<lambda>c. c \<noteq> CHR ''/'') (rev p))"

text \<open>Modelled from the spec: \<open>getPathInfo\<close> of \<open>utils\<close> is not among the sources. The spec
  gives \<open>parent(path)\<close> as null at the root, else everything before the last separator or
  bracket-group start.\<close>

fun last_group_start :: "string \<Rightarrow> nat option" where
  "last_group_start [] = None"
| "last_group_start (c # cs) =
     (case last_group_start cs of
        Some i \<Rightarrow> Some (Suc i)
      | None \<Rightarrow> if c = CHR ''/'' \<or> c = CHR ''['' then Some 0 else None)"

definition getPathInfo_parent :: "string \<Rightarrow> string option" where
  "getPathInfo_parent p =
     (if p = [] then None
      else case last_group_start p of None \<Rightarrow> Some [] | Some i \<Rightarrow> Some (take i p))"

text \<open>Modelled from the spec: \<open>keyOf\<close> of the path model is not among the sources. The spec
  gives \<open>keyOf(path)\<close> as the trailing key of the path, the empty string at the root,
  where the keys of a path are property names and bracketed indexes and a bracketed
  segment is never split: the trailing key is what follows the last separator, or the
  last bracket group.\<close>

definition keyOf :: "string \<Rightarrow> string" where
  "keyOf p =
     (case last_group_start p of
        None \<Rightarrow> p
      | Some i \<Rightarrow> if p ! i = CHR ''/'' then drop (Suc i) p else drop i p)"

section \<open>Own properties of a value\<close>

definition digit_char :: "nat \<Rightarrow> char" where
  "digit_char d = ''0123456789'' ! d"

text \<open>The decimal numeral of an array index, as \<open>Object.keys\<close> of an array lists it.\<close>

fun string_of_nat :: "nat \<Rightarrow> string" where
  "string_of_nat n =
     (if n < 10 then [digit_char n] else string_of_nat (n div 10) @ [digit_char (n mod 10)])"

declare string_of_nat.simps [simp del]

definition array_entries :: "jsval list \<Rightarrow> (string \<times> jsval) list" where
  "array_entries xs = zip (map string_of_nat [0..<length xs]) xs"

text \<open>\<open>Object.keys(v)\<close>: it throws on \<open>null\<close> and \<open>undefined\<close>; a primitive, a \<open>Date\<close> and an
  \<open>ArrayBuffer\<close> have no own enumerable property; a \<open>PathReference\<close> has its \<open>path\<close>.\<close>

fun Object_keys :: "jsval \<Rightarrow> error + string list" where
  "Object_keys JUndefined = Inl TypeError"
| "Object_keys JNull = Inl TypeError"
| "Object_keys (JPathRef p) = Inr [''path'']"
| "Object_keys (JArray xs) = Inr (map fst (array_entries xs))"
| "Object_keys (JObject kvs) = Inr (map fst kvs)"
| "Object_keys v = Inr []"

text \<open>\<open>v[k]\<close>: reading a property of \<open>null\<close> or \<open>undefined\<close> throws; a property the value
  does not own reads as \<open>undefined\<close>.\<close>

fun get_prop :: "jsval \<Rightarrow> string \<Rightarrow> error + jsval" where
  "get_prop JUndefined k = Inl TypeError"
| "get_prop JNull k = Inl TypeError"
| "get_prop (JObject kvs) k = Inr (case map_of kvs k of Some v \<Rightarrow> v | None \<Rightarrow> JUndefined)"
| "get_prop (JArray xs) k =
     Inr (case map_of (array_entries xs) k of Some v \<Rightarrow> v | None \<Rightarrow> JUndefined)"
| "get_prop (JPathRef p) k = Inr (if k = ''path'' then JString p else JUndefined)"
| "get_prop v k = Inr JUndefined"

section \<open>References, snapshots and registrations\<close>

text \<open>Modelled from the spec: \<open>DataSnapshot\<close> is not among the sources. The spec has it
  constructed from a reference and a value, exposing the value; the reference is kept by
  its path.\<close>

record DataSnapshot =
  snap_path :: string
  snap_val :: jsval

text \<open>What a caller can pass where a callback is expected: nothing, a boolean (\<open>on\<close>
  documents \<open>true\<close>), a function of the application (known by its identity), the one-shot
  closure \<open>(snap) => { this.off(event, snap); resolve(snap); }\<close> of \<open>once\<close> (with the
  promise it resolves and the event it captured), or a snapshot.\<close>

datatype jscallback =
    CbUndefined
  | CbBool bool
  | CbUser nat
  | CbOnce nat string
  | CbSnapshot DataSnapshot

fun is_function :: "jscallback \<Rightarrow> bool" where
  "is_function (CbUser n) = True"
| "is_function (CbOnce p ev) = True"
| "is_function c = False"

fun truthy :: "jscallback \<Rightarrow> bool" where
  "truthy CbUndefined = False"
| "truthy (CbBool b) = b"
| "truthy c = True"

text \<open>The object \<open>cb\<close> that \<open>on\<close> pushes on the callback list: the stream, the caller's
  callback, and the handler \<open>ours\<close> given to the backend, known by its identity;
  \<open>on_event\<close> is the \<open>event\<close> the handler's closure captured.\<close>

record registration =
  subscr :: nat
  original :: jscallback
  ours :: nat
  on_event :: string

text \<open>The private record of a Reference (path, key, callback list) and its \<open>db\<close>.\<close>

record DataReference =
  db :: nat
  path :: string
  key :: string
  callbacks :: "registration list"

definition DataReference_ctor :: "nat \<Rightarrow> string option \<Rightarrow> DataReference" where
  "DataReference_ctor d p =
     (let path0 = (case p of None \<Rightarrow> [] | Some s \<Rightarrow> s);
          path1 = trim_slashes path0;
          key1 = (if path1 = [] then [] else after_last_slash path1)
      in \<lparr>db = d, path = path1, key = key1, callbacks = []\<rparr>)"

definition DataReference_parent :: "DataReference \<Rightarrow> DataReference option" where
  "DataReference_parent r =
     (case getPathInfo_parent (path r) of
        None \<Rightarrow> None
      | Some pp \<Rightarrow> Some (DataReference_ctor (db r) (Some pp)))"

definition DataReference_child :: "DataReference \<Rightarrow> string \<Rightarrow> DataReference" where
  "DataReference_child r childPath =
     DataReference_ctor (db r) (Some (path r @ ''/'' @ trim_slashes childPath))"

text \<open>The type-mapping collaborator \<open>db.types\<close> is not among the sources: its two
  functions are parameters, over any type of transport values.\<close>

record 't TypeMappings =
  tm_serialize :: "string \<Rightarrow> jsval \<Rightarrow> error + 't"
  tm_deserialize :: "string \<Rightarrow> 't \<Rightarrow> error + jsval"

text \<open>The calls a Reference issues to the backend \<open>db.api\<close>, each with the path of the
  Reference it passes.\<close>

datatype 't api_call =
    ApiGet string jsval
  | ApiSet string 't
  | ApiUpdate string 't
  | ApiSubscribe string string nat
  | ApiUnsubscribe string "string option" "nat option"

datatype debug_entry =
    DeliveryError string string string
  | CallbackNotFound string "string option"

text \<open>Modelled from the spec: \<open>EventStream\<close> is not among the sources. The spec gives a
  stream \<open>publish(value)\<close>, which answers whether anyone still listens, and
  \<open>stop(handler?)\<close>; the stream records what it was given.\<close>

record EventStream =
  published :: "DataSnapshot list"
  stopped :: "nat option list"
  keep_alive :: bool

datatype promise_state = Pending | Resolved DataSnapshot | Rejected error

text \<open>The two closures \<open>on\<close> chains on its immediate read, with the stream and the callback
  they captured.\<close>

datatype continuation =
    ReplayValue nat jscallback
  | ReplayChildAdded nat jscallback

text \<open>A promise reaction waiting in the job queue of the engine: the closure \<open>get\<close> chained
  on the backend's read, with the promise \<open>get\<close> returned and the value the backend
  answered; or a closure of \<open>on\<close> chained on that promise, with the snapshot it resolved
  to.\<close>

datatype 't job =
    GetReaction nat 't
  | ThenReaction continuation DataSnapshot

text \<open>One Reference (\<open>self\<close>) and what it talks to: the backend calls issued so far, the
  debug log, the streams and promises created, the reads the backend has not answered,
  the continuations chained on promises, the promise reactions that wait for their turn,
  and the calls of application callbacks.\<close>

record 't world =
  self :: DataReference
  api :: "'t api_call list"
  debug_log :: "debug_entry list"
  streams :: "EventStream list"
  promises :: "promise_state list"
  pending_gets :: "nat list"
  thens :: "(nat \<times> continuation) list"
  jobs :: "'t job list"
  invoked :: "(nat \<times> DataSnapshot) list"
  next_handler :: nat

section \<open>Operations of a Reference\<close>

fun is_Array :: "jsval \<Rightarrow> bool" where
  "is_Array (JArray xs) = True"
| "is_Array v = False"

fun is_ArrayBuffer :: "jsval \<Rightarrow> bool" where
  "is_ArrayBuffer (JBinary b) = True"
| "is_ArrayBuffer v = False"

fun is_Date :: "jsval \<Rightarrow> bool" where
  "is_Date (JDate d) = True"
| "is_Date v = False"

text \<open>\<open>set(value)\<close>, with \<open>onComplete\<close> left out. The result is the error thrown, or the
  path of the Reference the returned promise resolves with; the world shows whether the
  backend was called.\<close>

definition DataReference_set ::
  "'t TypeMappings \<Rightarrow> jsval \<Rightarrow> 't world \<Rightarrow> (error + string) \<times> 't world" where
  "DataReference_set tm v w =
     (if DataReference_parent (self w) = None
      then (Inl (Error ''Cannot set the root object. Use update, or set individual child properties''), w)
      else if typeof v = ''undefined''
      then (Inl TypeError, w)
      else case tm_serialize tm (path (self w)) v of
             Inl e \<Rightarrow> (Inl e, w)
           | Inr tv \<Rightarrow> (Inr (path (self w)), w\<lparr>api := api w @ [ApiSet (path (self w)) tv]\<rparr>))"

definition DataReference_update ::
  "'t TypeMappings \<Rightarrow> jsval \<Rightarrow> 't world \<Rightarrow> (error + string) \<times> 't world" where
  "DataReference_update tm updates w =
     (if typeof updates \<noteq> ''object'' \<or> is_Array updates \<or> is_ArrayBuffer updates
         \<or> is_Date updates
      then DataReference_set tm updates w
      else case tm_serialize tm (path (self w)) updates of
             Inl e \<Rightarrow> (Inl e, w)
           | Inr tv \<Rightarrow> (Inr (path (self w)), w\<lparr>api := api w @ [ApiUpdate (path (self w)) tv]\<rparr>))"

definition DataReference_remove ::
  "'t TypeMappings \<Rightarrow> 't world \<Rightarrow> (error + string) \<times> 't world" where
  "DataReference_remove tm w =
     (if DataReference_parent (self w) = None
      then (Inl (Error ''Cannot remove the top node''), w)
      else DataReference_set tm JNull w)"

text \<open>\<open>get(options)\<close>: the backend read is issued; the promise returned is the next
  promise of the world, pending until the backend answers.\<close>

definition DataReference_get :: "jsval \<Rightarrow> 't world \<Rightarrow> nat \<times> 't world" where
  "DataReference_get opts w =
     (let p = length (promises w)
      in (p, w\<lparr>api := api w @ [ApiGet (path (self w)) opts],
                promises := promises w @ [Pending],
                pending_gets := pending_gets w @ [p]\<rparr>))"

definition EventStream_publish :: "nat \<Rightarrow> DataSnapshot \<Rightarrow> 't world \<Rightarrow> bool \<times> 't world" where
  "EventStream_publish sid snap w =
     (if sid < length (streams w)
      then (keep_alive (streams w ! sid),
            w\<lparr>streams := (streams w)[sid := (streams w ! sid)
                 \<lparr>published := published (streams w ! sid) @ [snap]\<rparr>]\<rparr>)
      else (False, w))"

definition EventStream_stop :: "nat \<Rightarrow> nat option \<Rightarrow> 't world \<Rightarrow> 't world" where
  "EventStream_stop sid h w =
     (if sid < length (streams w)
      then w\<lparr>streams := (streams w)[sid := (streams w ! sid)
                 \<lparr>stopped := stopped (streams w ! sid) @ [h]\<rparr>]\<rparr>
      else w)"

text \<open>A listener attaches to a stream: from then on \<open>publish\<close> answers that someone listens.\<close>

definition EventStream_subscribe :: "nat \<Rightarrow> 't world \<Rightarrow> 't world" where
  "EventStream_subscribe sid w =
     (if sid < length (streams w)
      then w\<lparr>streams := (streams w)[sid := (streams w ! sid)\<lparr>keep_alive := True\<rparr>]\<rparr>
      else w)"

text \<open>The \<open>resolve\<close> function of a promise: only a pending promise changes.\<close>

definition resolve_promise :: "nat \<Rightarrow> DataSnapshot \<Rightarrow> 't world \<Rightarrow> 't world" where
  "resolve_promise p snap w =
     (if p < length (promises w) \<and> promises w ! p = Pending
      then w\<lparr>promises := (promises w)[p := Resolved snap]\<rparr>
      else w)"

fun find_index :: "('a \<Rightarrow> bool) \<Rightarrow> 'a list \<Rightarrow> nat option" where
  "find_index P [] = None"
| "find_index P (x # xs) =
     (if P x then Some 0 else case find_index P xs of None \<Rightarrow> None | Some i \<Rightarrow> Some (Suc i))"

text \<open>\<open>xs.splice(xs.indexOf(x), 1)\<close>: \<open>indexOf\<close> answers -1 for an element the list does
  not hold, and \<open>splice(-1, 1)\<close> removes the last element.\<close>

fun splice1 :: "nat option \<Rightarrow> 'a list \<Rightarrow> 'a list" where
  "splice1 (Some i) xs = take i xs @ drop (Suc i) xs"
| "splice1 None xs = butlast xs"

definition DataReference_off :: "string option \<Rightarrow> jscallback \<Rightarrow> 't world \<Rightarrow> 't world" where
  "DataReference_off event callback w =
     (let cbs = callbacks (self w) in
      if truthy callback then
        (case find (\<lambda>cb. original cb = callback) cbs of
           None \<Rightarrow> w\<lparr>debug_log := debug_log w @ [CallbackNotFound (path (self w)) event]\<rparr>
         | Some cb \<Rightarrow>
             (let w1 = w\<lparr>self := (self w)
                        \<lparr>callbacks := splice1 (find_index (\<lambda>c. original c = callback) cbs) cbs\<rparr>\<rparr>;
                  w2 = EventStream_stop (subscr cb) (Some (ours cb)) w1
              in w2\<lparr>api := api w2 @ [ApiUnsubscribe (path (self w2)) event (Some (ours cb))]\<rparr>))
      else
        (let w1 = w\<lparr>self := (self w)\<lparr>callbacks := []\<rparr>\<rparr>;
             w2 = fold (\<lambda>cb. EventStream_stop (subscr cb) None) cbs w1
         in w2\<lparr>api := api w2 @ [ApiUnsubscribe (path (self w2)) event None]\<rparr>))"

text \<open>Calling \<open>callback(snap)\<close>: a function of the application is recorded as called; the
  one-shot closure of \<open>once\<close> runs \<open>this.off(event, snap)\<close> and then \<open>resolve(snap)\<close>.\<close>

fun call_callback :: "jscallback \<Rightarrow> DataSnapshot \<Rightarrow> 't world \<Rightarrow> 't world" where
  "call_callback (CbUser n) snap w = w\<lparr>invoked := invoked w @ [(n, snap)]\<rparr>"
| "call_callback (CbOnce p ev) snap w =
     resolve_promise p snap (DataReference_off (Some ev) (CbSnapshot snap) w)"
| "call_callback c snap w = w"

text \<open>\<open>on(event, callback)\<close>. The immediate read \<open>this.once("value")\<close> is \<open>this.get()\<close> with
  no options, by the first case of \<open>once\<close>.\<close>

definition DataReference_on :: "string \<Rightarrow> jscallback \<Rightarrow> 't world \<Rightarrow> nat \<times> 't world" where
  "DataReference_on event callback w =
     (let sid = length (streams w);
          hid = next_handler w;
          cb = \<lparr>subscr = sid, original = callback, ours = hid, on_event = event\<rparr>;
          w1 = w\<lparr>self := (self w)\<lparr>callbacks := callbacks (self w) @ [cb]\<rparr>,
                 streams := streams w @ [\<lparr>published = [], stopped = [], keep_alive = False\<rparr>],
                 next_handler := Suc hid\<rparr>;
          w2 = w1\<lparr>api := api w1 @ [ApiSubscribe (path (self w1)) event hid]\<rparr>
      in if truthy callback then
           (if event = ''value'' then
              (let (p, w3) = DataReference_get JUndefined w2
               in (sid, w3\<lparr>thens := thens w3 @ [(p, ReplayValue sid callback)]\<rparr>))
            else if event = ''child_added'' then
              (let (p, w3) = DataReference_get JUndefined w2
               in (sid, w3\<lparr>thens := thens w3 @ [(p, ReplayChildAdded sid callback)]\<rparr>))
            else (sid, w2))
         else (sid, w2))"

definition DataReference_once :: "string \<Rightarrow> jsval \<Rightarrow> 't world \<Rightarrow> nat \<times> 't world" where
  "DataReference_once event opts w =
     (if event = ''value'' then DataReference_get opts w
      else (let p = length (promises w);
                w1 = w\<lparr>promises := promises w @ [Pending]\<rparr>;
                (sid, w2) = DataReference_on event (CbOnce p event) w1
            in (p, w2)))"

text \<open>The error argument of a handler is a message, or nothing (\<open>null\<close>, \<open>undefined\<close>).
  The test \<open>if (err)\<close> holds for a message that is not the empty string.\<close>

fun truthy_error :: "string option \<Rightarrow> bool" where
  "truthy_error None = False"
| "truthy_error (Some e) = (e \<noteq> [])"

text \<open>The handler \<open>ours\<close> of a registration, as the backend calls it with
  \<open>(err, path, newValue, oldValue)\<close>.\<close>

definition DataReference_ours ::
  "'t TypeMappings \<Rightarrow> registration \<Rightarrow> string option \<Rightarrow> string \<Rightarrow> 't \<Rightarrow> 't \<Rightarrow> 't world
     \<Rightarrow> (error + unit) \<times> 't world" where
  "DataReference_ours tm cb err pth newValue oldValue w =
     (if truthy_error err
      then (Inr (), w\<lparr>debug_log := debug_log w @ [DeliveryError (on_event cb) pth (the err)]\<rparr>)
      else
         (case tm_deserialize tm pth (if on_event cb = ''child_removed'' then oldValue else newValue) of
            Inl e \<Rightarrow> (Inl e, w)
          | Inr val \<Rightarrow>
             (let ref = DataReference_ctor (db (self w)) (Some pth);
                  snap = \<lparr>snap_path = path ref, snap_val = val\<rparr>;
                  useCallback = is_function (original cb);
                  w1 = (if useCallback then call_callback (original cb) snap w else w);
                  (keep, w2) = EventStream_publish (subscr cb) snap w1
              in if \<not> keep \<and> \<not> useCallback then
                   (let cbs = callbacks (self w2);
                        w3 = w2\<lparr>self := (self w2)
                               \<lparr>callbacks := splice1 (find_index (\<lambda>c. ours c = ours cb) cbs) cbs\<rparr>\<rparr>
                    in (Inr (), w3\<lparr>api := api w3 @
                          [ApiUnsubscribe (path (self w3)) (Some (on_event cb)) (Some (ours cb))]\<rparr>))
                 else (Inr (), w2))))"

text \<open>The loop of the \<open>child_added\<close> replay over \<open>Object.keys(val)\<close>.\<close>

fun replay_children ::
  "nat \<Rightarrow> jscallback \<Rightarrow> jsval \<Rightarrow> string list \<Rightarrow> 't world \<Rightarrow> (error + unit) \<times> 't world" where
  "replay_children sid callback val [] w = (Inr (), w)"
| "replay_children sid callback val (k # ks) w =
     (case get_prop val k of
        Inl e \<Rightarrow> (Inl e, w)
      | Inr cv \<Rightarrow>
         (let childSnap = \<lparr>snap_path = path (DataReference_child (self w) k), snap_val = cv\<rparr>;
              (keep, w1) = EventStream_publish sid childSnap w;
              w2 = (if is_function callback then call_callback callback childSnap w1 else w1)
          in replay_children sid callback val ks w2))"

text \<open>The closures chained on the immediate read, run with the snapshot it resolved to.\<close>

fun run_then :: "continuation \<Rightarrow> DataSnapshot \<Rightarrow> 't world \<Rightarrow> (error + unit) \<times> 't world" where
  "run_then (ReplayValue sid callback) snap w =
     (let (keep, w1) = EventStream_publish sid snap w
      in (Inr (), if is_function callback then call_callback callback snap w1 else w1))"
| "run_then (ReplayChildAdded sid callback) snap w =
     (let val = snap_val snap in
      if typeof val \<noteq> ''object'' then (Inr (), w)
      else case Object_keys val of
             Inl e \<Rightarrow> (Inl e, w)
           | Inr ks \<Rightarrow> replay_children sid callback val ks w)"

text \<open>The backend answers the read behind promise \<open>p\<close> with a transport value: the
  promise of \<open>db.api.get\<close> resolves, and the closure \<open>get\<close> chained on it is queued as a
  promise reaction. It runs later, when the engine takes it from the queue.\<close>

definition backend_resolve_get :: "nat \<Rightarrow> 't \<Rightarrow> 't world \<Rightarrow> 't world" where
  "backend_resolve_get p tv w =
     (if p \<notin> set (pending_gets w) then w
      else w\<lparr>pending_gets := removeAll p (pending_gets w), jobs := jobs w @ [GetReaction p tv]\<rparr>)"

text \<open>One promise reaction runs. The closure of \<open>get\<close> deserializes the value into a snapshot
  of this Reference: the promise \<open>get\<close> returned resolves with it, and each closure chained
  on that promise is queued in its turn; if \<open>deserialize\<close> throws, the promise is rejected.
  A closure of \<open>on\<close> runs with the snapshot.\<close>

fun run_job :: "'t TypeMappings \<Rightarrow> 't job \<Rightarrow> 't world \<Rightarrow> (error + unit) \<times> 't world" where
  "run_job tm (GetReaction p tv) w =
     (case tm_deserialize tm (path (self w)) tv of
        Inl e \<Rightarrow> (Inl e, w\<lparr>promises := (promises w)[p := Rejected e]\<rparr>)
      | Inr v \<Rightarrow>
         (let snap = \<lparr>snap_path = path (self w), snap_val = v\<rparr>
          in (Inr (), w\<lparr>promises := (promises w)[p := Resolved snap],
                         jobs := jobs w @ map (\<lambda>qk. ThenReaction (snd qk) snap)
                                            (filter (\<lambda>qk. fst qk = p) (thens w))\<rparr>)))"
| "run_job tm (ThenReaction k snap) w = run_then k snap w"

text \<open>The engine takes the first reaction from the queue and runs it.\<close>

definition run_next_job :: "'t TypeMappings \<Rightarrow> 't world \<Rightarrow> (error + unit) \<times> 't world" where
  "run_next_job tm w =
     (case jobs w of
        [] \<Rightarrow> (Inr (), w)
      | j # js \<Rightarrow> run_job tm j (w\<lparr>jobs := js\<rparr>))"

section \<open>The query builder\<close>

text \<open>What \<open>where\<close> can be given to compare with: a value, a regular expression (its
  source), or a function (its identity).\<close>

datatype compare = CValue jsval | CRegExp string | CFunction nat

record query_filter =
  f_key :: string
  f_op :: string
  f_compare :: compare

record DataReferenceQuery =
  q_ref :: DataReference
  filters :: "query_filter list"
  skip_nr :: int
  take_nr :: int
  order_by :: "(string \<times> bool) list"

definition DataReferenceQuery_ctor :: "DataReference \<Rightarrow> DataReferenceQuery" where
  "DataReferenceQuery_ctor r = \<lparr>q_ref = r, filters = [], skip_nr = 0, take_nr = 0, order_by = []\<rparr>"

text \<open>\<open>compare instanceof Array\<close> and \<open>compare.length\<close>.\<close>

fun compare_array :: "compare \<Rightarrow> jsval list option" where
  "compare_array (CValue (JArray xs)) = Some xs"
| "compare_array c = None"

fun is_RegExp :: "compare \<Rightarrow> bool" where
  "is_RegExp (CRegExp s) = True"
| "is_RegExp c = False"

fun is_Function :: "compare \<Rightarrow> bool" where
  "is_Function (CFunction f) = True"
| "is_Function c = False"

text \<open>\<open>where(key, op, compare)\<close>: a string is thrown, or the filter is pushed and the
  builder returned. The function has no access to the backend.\<close>

definition DataReferenceQuery_where ::
  "string \<Rightarrow> string \<Rightarrow> compare \<Rightarrow> DataReferenceQuery \<Rightarrow> error + DataReferenceQuery" where
  "DataReferenceQuery_where k op c q =
     (if (op = ''in'' \<or> op = ''!in'')
         \<and> (case compare_array c of None \<Rightarrow> True | Some xs \<Rightarrow> length xs = 0)
      then Inl (Thrown (op @ '' filter for '' @ k
                 @ '' must supply an Array compare argument containing at least 1 value''))
      else if (op = ''between'' \<or> op = ''!between'')
         \<and> (case compare_array c of None \<Rightarrow> True | Some xs \<Rightarrow> length xs \<noteq> 2)
      then Inl (Thrown (op @ '' filter for '' @ k
                 @ '' must supply an Array compare argument containing 2 values''))
      else if (op = ''matches'' \<or> op = ''!matches'') \<and> \<not> is_RegExp c
      then Inl (Thrown (op @ '' filter for '' @ k @ '' must supply a RegExp compare argument''))
      else if op = ''custom'' \<and> \<not> is_Function c
      then Inl (Thrown (op @ '' filter for '' @ k @ '' must supply a Function compare argument''))
      else Inr (q\<lparr>filters := filters q @ [\<lparr>f_key = k, f_op = op, f_compare = c\<rparr>]\<rparr>))"

section \<open>The transport codec\<close>

text \<open>The built-ins and the module the codec calls: \<open>Date.prototype.toISOString\<close> on a
  valid time value, \<open>new Date(string)\<close> (\<open>None\<close> for an invalid date), and \<open>encode\<close> and
  \<open>decode\<close> of \<open>ascii85\<close>, which is not among the sources. They are parameters.\<close>

record codec =
  toISOString :: "int \<Rightarrow> string"
  parseDate :: "string \<Rightarrow> int option"
  ascii85_encode :: "8 word list \<Rightarrow> string"
  ascii85_decode :: "string \<Rightarrow> 8 word list"












fun split_slash :: "string \<Rightarrow> string list" where
  "split_slash [] = [[]]"
| "split_slash (c # cs) =
     (if c = CHR ''/'' then [] # split_slash cs
      else (case split_slash cs of [] \<Rightarrow> [[c]] | k # ks \<Rightarrow> (c # k) # ks))"











text \<open>A value that is not \<open>null\<close>, a primitive, a \<open>Date\<close>, an \<open>ArrayBuffer\<close> or a
  \<open>PathReference\<close>: an object or an array.\<close>

fun is_composite :: "jsval \<Rightarrow> bool" where
  "is_composite (JArray xs) = True"
| "is_composite (JObject kvs) = True"
| "is_composite v = False"


section \<open>Vocabulary of the properties\<close>

text \<open>A canonical path has no separator at either end.\<close>

definition canonical :: "string \<Rightarrow> bool" where
  "canonical p \<longleftrightarrow> p = [] \<or> (hd p \<noteq> CHR ''/'' \<and> last p \<noteq> CHR ''/'')"

text \<open>Two separators in a row somewhere in the string.\<close>

fun double_sep :: "string \<Rightarrow> bool" where
  "double_sep [] = False"
| "double_sep (a # cs) = ((a = CHR ''/'' \<and> cs \<noteq> [] \<and> hd cs = CHR ''/'') \<or> double_sep cs)"

text \<open>The last key of a path is a bracketed index.\<close>

definition ends_with_index :: "string \<Rightarrow> bool" where
  "ends_with_index p \<longleftrightarrow>
     (case last_group_start p of None \<Rightarrow> False | Some i \<Rightarrow> p ! i = CHR ''['')"

text \<open>The second world holds the same Reference as the first: same \<open>db\<close>, path and key.\<close>

definition keeps_ref :: "'t world \<Rightarrow> 't world \<Rightarrow> bool" where
  "keeps_ref w w' \<longleftrightarrow>
     db (self w') = db (self w) \<and> path (self w') = path (self w) \<and> key (self w') = key (self w)"

text \<open>A type mapping with no registered class: values cross unchanged. A world with a
  fresh Reference at a path, where nothing has happened yet.\<close>

definition tm_plain :: "jsval TypeMappings" where
  "tm_plain = \<lparr>tm_serialize = (\<lambda>p v. Inr v), tm_deserialize = (\<lambda>p v. Inr v)\<rparr>"

definition world_at :: "string \<Rightarrow> jsval world" where
  "world_at p = \<lparr>self = DataReference_ctor 0 (Some p), api = [], debug_log = [], streams = [],
     promises = [], pending_gets = [], thens = [], jobs = [], invoked = [], next_handler = 0\<rparr>"

text \<open>The world after \<open>on("child_changed", f)\<close> on a fresh Reference at \<open>a\<close>, where \<open>f\<close> is
  the application's function 7, and the registration this call made.\<close>

definition world_subscribed :: "jsval world" where
  "world_subscribed = snd (DataReference_on ''child_changed'' (CbUser 7) (world_at ''a''))"

definition reg7 :: registration where
  "reg7 = \<lparr>subscr = 0, original = CbUser 7, ours = 0, on_event = ''child_changed''\<rparr>"

section \<open>The backend at work\<close>

text \<open>What happens once a Reference has called the backend: the backend answers the read
  behind a promise with a transport value, it calls a handler with \<open>(err, path, newValue,
  oldValue)\<close>, or the engine runs the next promise reaction of its queue. The backend may
  call a handler between its answer and the reactions to it, and between two reactions.
  An exception a handler or a reaction throws ends that call only.\<close>

datatype 't backend_step =
    Answer nat 't
  | Deliver registration "string option" string 't 't
  | Reaction

fun backend_steps :: "'t TypeMappings \<Rightarrow> 't backend_step list \<Rightarrow> 't world \<Rightarrow> 't world" where
  "backend_steps tm [] w = w"
| "backend_steps tm (Answer p tv # ss) w =
     backend_steps tm ss (backend_resolve_get p tv w)"
| "backend_steps tm (Deliver reg err pth nv ov # ss) w =
     backend_steps tm ss (snd (DataReference_ours tm reg err pth nv ov w))"
| "backend_steps tm (Reaction # ss) w =
     backend_steps tm ss (snd (run_next_job tm w))"

text \<open>A live event for a path with the value sent, the call of a handler that delivers
  it, and the snapshot the handler makes of it.\<close>

definition live_snapshot :: "'t TypeMappings \<Rightarrow> nat \<Rightarrow> string \<times> 't \<Rightarrow> DataSnapshot" where
  "live_snapshot tm d ev =
     \<lparr>snap_path = path (DataReference_ctor d (Some (fst ev))),
      snap_val = (case tm_deserialize tm (fst ev) (snd ev) of Inr v \<Rightarrow> v | Inl e \<Rightarrow> JUndefined)\<rparr>"

definition deliver_live :: "registration \<Rightarrow> string \<times> 't \<Rightarrow> 't backend_step" where
  "deliver_live reg ev = Deliver reg None (fst ev) (snd ev) (snd ev)"

text \<open>One snapshot per own key of a value, in the order of \<open>Object.keys\<close>, each with the
  child Reference's path and the value under the key; none for a value that is not an
  object.\<close>

definition child_snapshots :: "DataReference \<Rightarrow> jsval \<Rightarrow> DataSnapshot list" where
  "child_snapshots r val =
     (if typeof val \<noteq> ''object'' then []
      else case Object_keys val of
             Inl e \<Rightarrow> []
           | Inr ks \<Rightarrow>
               map (\<lambda>k. \<lparr>snap_path = path (DataReference_child r k),
                         snap_val = (case get_prop val k of Inr cv \<Rightarrow> cv | Inl e \<Rightarrow> JUndefined)\<rparr>) ks)"

text \<open>The world with snapshots delivered: passed to the application's function and
  published on a stream.\<close>

definition delivered :: "nat \<Rightarrow> nat \<Rightarrow> DataSnapshot list \<Rightarrow> 't world \<Rightarrow> 't world" where
  "delivered n sid snaps w =
     w\<lparr>invoked := invoked w @ map (Pair n) snaps,
       streams := (streams w)[sid := (streams w ! sid)
          \<lparr>published := published (streams w ! sid) @ snaps\<rparr>]\<rparr>"

text \<open>Example nodes, and the registration \<open>on(event, f)\<close> makes in a fresh world for the
  application's function 7.\<close>

definition node_ab :: jsval where
  "node_ab = JObject [(''a'', JNumber 1), (''b'', JNumber 2)]"

definition node_k1k2 :: jsval where
  "node_k1k2 = JObject [(''k1'', JNumber 1), (''k2'', JNumber 2)]"

definition reg_on :: "string \<Rightarrow> registration" where
  "reg_on ev = \<lparr>subscr = 0, original = CbUser 7, ours = 0, on_event = ev\<rparr>"

section \<open>Vocabulary of the round trip\<close>



text \<open>The properties of a composite value as \<open>Object.keys\<close> lists them, and the composite
  with other values under the same keys.\<close>

fun entries :: "jsval \<Rightarrow> (string \<times> jsval) list" where
  "entries (JObject kvs) = kvs"
| "entries (JArray xs) = array_entries xs"
| "entries v = []"

fun rebuild :: "jsval \<Rightarrow> (string \<times> jsval) list \<Rightarrow> jsval" where
  "rebuild (JObject kvs) es = JObject es"
| "rebuild (JArray xs) es = JArray (map snd es)"
| "rebuild v es = v"

text \<open>The tag of a value that \<open>process\<close> replaces.\<close>

fun leaf_tag :: "jsval \<Rightarrow> string option" where
  "leaf_tag (JDate d) = Some ''date''"
| "leaf_tag (JBinary b) = Some ''binary''"
| "leaf_tag (JPathRef p) = Some ''reference''"
| "leaf_tag v = None"

text \<open>What \<open>process\<close> puts in place of such a value.\<close>

fun leaf_plain :: "codec \<Rightarrow> jsval \<Rightarrow> jsval" where
  "leaf_plain c (JDate d) = (case d of None \<Rightarrow> JDate d | Some t \<Rightarrow> JString (toISOString c t))"
| "leaf_plain c (JBinary b) = JString (ascii85_encode c b)"
| "leaf_plain c (JPathRef p) = JString p"
| "leaf_plain c v = v"

text \<open>The tagged locations of a value, each as the keys that lead to it, with its tag.\<close>

function tagged_keys :: "jsval \<Rightarrow> (string list \<times> string) list" where
  "tagged_keys v =
     (if is_composite v
      then concat (map (\<lambda>kx. map (\<lambda>e. (fst kx # fst e, snd e)) (tagged_keys (snd kx))) (entries v))
      else (case leaf_tag v of None \<Rightarrow> [] | Some ty \<Rightarrow> [([], ty)]))"
  by pat_completeness auto
termination
proof (relation "measure size")
  show "wf (measure size)" by simp
next
  fix v :: jsval and kx :: "string \<times> jsval"
  assume "is_composite v" and m: "kx \<in> set (entries v)"
  have "size (snd kx) < size v"
  proof (cases v)
    case (JArray xs)
    with m have "(fst kx, snd kx) \<in> set (zip (map string_of_nat [0..<length xs]) xs)"
      by (simp add: array_entries_def)
    then have "snd kx \<in> set xs"
      by (rule set_zip_rightD)
    then have "size (snd kx) \<le> size_list size xs"
      by (rule size_list_estimation') simp
    with JArray show ?thesis by simp
  next
    case (JObject kvs)
    with m have "kx \<in> set kvs" by simp
    then have "size_prod (\<lambda>_. 0) size kx \<le> size_list (size_prod (\<lambda>_. 0) size) kvs"
      by (rule size_list_estimation') simp
    moreover have "size (snd kx) < size_prod (\<lambda>_. 0) size kx"
      by (cases kx) simp
    ultimately show ?thesis using JObject by simp
  qed (use m in auto)
  then show "(snd kx, v) \<in> measure size" by simp
qed

text \<open>The value with the tagged locations that \<open>S\<close> selects in transport form and the others
  as they are.\<close>

function mix :: "codec \<Rightarrow> (string list \<Rightarrow> bool) \<Rightarrow> jsval \<Rightarrow> jsval" where
  "mix c S v =
     (if is_composite v
      then rebuild v (map (\<lambda>kx. (fst kx, mix c (\<lambda>ks. S (fst kx # ks)) (snd kx))) (entries v))
      else if S [] then leaf_plain c v else v)"
  by pat_completeness auto
termination
proof (relation "measure (\<lambda>(c, S, v). size v)")
  show "wf (measure (\<lambda>(c, S, v). size v))" by simp
next
  fix c :: codec and S :: "string list \<Rightarrow> bool" and v :: jsval and kx :: "string \<times> jsval"
  assume "is_composite v" and m: "kx \<in> set (entries v)"
  have "size (snd kx) < size v"
  proof (cases v)
    case (JArray xs)
    with m have "(fst kx, snd kx) \<in> set (zip (map string_of_nat [0..<length xs]) xs)"
      by (simp add: array_entries_def)
    then have "snd kx \<in> set xs"
      by (rule set_zip_rightD)
    then have "size (snd kx) \<le> size_list size xs"
      by (rule size_list_estimation') simp
    with JArray show ?thesis by simp
  next
    case (JObject kvs)
    with m have "kx \<in> set kvs" by simp
    then have "size_prod (\<lambda>_. 0) size kx \<le> size_list (size_prod (\<lambda>_. 0) size) kvs"
      by (rule size_list_estimation') simp
    moreover have "size (snd kx) < size_prod (\<lambda>_. 0) size kx"
      by (cases kx) simp
    ultimately show ?thesis using JObject by simp
  qed (use m in auto)
  then show "((c, \<lambda>ks. S (fst kx # ks), snd kx), (c, S, v)) \<in> measure (\<lambda>(c, S, v). size v)"
    by simp
qed











declare tagged_keys.simps [simp del] mix.simps [simp del]

section \<open>Validation in the query builder\<close>

lemma compare_array_None: "compare_array c = None \<longleftrightarrow> (\<forall>xs. c \<noteq> CValue (JArray xs))"
  by (cases c rule: compare_array.cases) auto

lemma compare_array_Some: "compare_array c = Some xs \<longleftrightarrow> c = CValue (JArray xs)"
  by (cases c rule: compare_array.cases) auto

lemma is_RegExp_iff: "is_RegExp c \<longleftrightarrow> (\<exists>s. c = CRegExp s)"
  by (cases c) auto

lemma is_Function_iff: "is_Function c \<longleftrightarrow> (\<exists>f. c = CFunction f)"
  by (cases c) auto

text \<open>
  C4. \<open>where\<close> validates as it is called. With \<open>in\<close> or \<open>!in\<close> it throws unless the compare
  argument is a non-empty array; with \<open>between\<close> or \<open>!between\<close> unless it is an array of
  exactly two elements; with \<open>matches\<close> or \<open>!matches\<close> unless it is a regular expression
  (the plain string \<open>"a"\<close> throws); with \<open>custom\<close> unless it is a function. With any other
  operator it does not throw, whatever the compare argument. A call that does not throw
  returns the builder with the filter appended and nothing else changed. The function is
  given the builder only: it has no backend to call.
\<close>

theorem where_validates_eagerly:
  "((op = ''in'' \<or> op = ''!in'') \<longrightarrow>
      (isl (DataReferenceQuery_where k op c q) \<longleftrightarrow> \<not> (\<exists>xs. c = CValue (JArray xs) \<and> xs \<noteq> [])))
   \<and> ((op = ''between'' \<or> op = ''!between'') \<longrightarrow>
      (isl (DataReferenceQuery_where k op c q) \<longleftrightarrow> \<not> (\<exists>a b. c = CValue (JArray [a, b]))))
   \<and> ((op = ''matches'' \<or> op = ''!matches'') \<longrightarrow>
      (isl (DataReferenceQuery_where k op c q) \<longleftrightarrow> \<not> (\<exists>s. c = CRegExp s)))
   \<and> (op = ''custom'' \<longrightarrow>
      (isl (DataReferenceQuery_where k op c q) \<longleftrightarrow> \<not> (\<exists>f. c = CFunction f)))
   \<and> isl (DataReferenceQuery_where k ''matches'' (CValue (JString ''a'')) q)
   \<and> (op \<notin> {''in'', ''!in'', ''between'', ''!between'', ''matches'', ''!matches'', ''custom''} \<longrightarrow>
      \<not> isl (DataReferenceQuery_where k op c q))
   \<and> (\<not> isl (DataReferenceQuery_where k op c q) \<longrightarrow>
      DataReferenceQuery_where k op c q
        = Inr (q\<lparr>filters := filters q @ [\<lparr>f_key = k, f_op = op, f_compare = c\<rparr>]\<rparr>))"
proof -
  have two: "(\<exists>a b. xs = [a, b]) \<longleftrightarrow> length xs = 2" for xs :: "jsval list"
    by (cases xs; cases "tl xs"; cases "tl (tl xs)") auto
  have arr2: "(\<exists>a b. c = CValue (JArray [a, b]))
      \<longleftrightarrow> (case compare_array c of None \<Rightarrow> False | Some xs \<Rightarrow> length xs = 2)"
    using two by (cases c rule: compare_array.cases) auto
  have arr1: "(\<exists>xs. c = CValue (JArray xs) \<and> xs \<noteq> [])
      \<longleftrightarrow> (case compare_array c of None \<Rightarrow> False | Some xs \<Rightarrow> length xs \<noteq> 0)"
    by (cases c rule: compare_array.cases) auto
  show ?thesis
    unfolding arr1 arr2 is_RegExp_iff [symmetric] is_Function_iff [symmetric]
    by (auto simp: DataReferenceQuery_where_def split: option.splits)
qed

theorem where_validates_eagerly_witness:
  "isl (DataReferenceQuery_where ''x'' ''in'' (CValue (JArray []))
          (DataReferenceQuery_ctor (DataReference_ctor 0 (Some ''chats''))))
   \<and> isl (DataReferenceQuery_where ''x'' ''between'' (CValue (JArray [JNumber 1]))
          (DataReferenceQuery_ctor (DataReference_ctor 0 (Some ''chats''))))
   \<and> isl (DataReferenceQuery_where ''x'' ''matches'' (CValue (JString ''a''))
          (DataReferenceQuery_ctor (DataReference_ctor 0 (Some ''chats''))))
   \<and> isl (DataReferenceQuery_where ''x'' ''custom'' (CValue (JNumber 3))
          (DataReferenceQuery_ctor (DataReference_ctor 0 (Some ''chats''))))
   \<and> filters (projr (DataReferenceQuery_where ''x'' ''between'' (CValue (JArray [JNumber 1, JNumber 5]))
          (DataReferenceQuery_ctor (DataReference_ctor 0 (Some ''chats'')))))
        = [\<lparr>f_key = ''x'', f_op = ''between'', f_compare = CValue (JArray [JNumber 1, JNumber 5])\<rparr>]
   \<and> filters (projr (DataReferenceQuery_where ''x'' ''=='' (CValue JUndefined)
          (DataReferenceQuery_ctor (DataReference_ctor 0 (Some ''chats'')))))
        = [\<lparr>f_key = ''x'', f_op = ''=='', f_compare = CValue JUndefined\<rparr>]"
  using where_validates_eagerly [of "''in''" "''x''" "CValue (JArray [])"
          "DataReferenceQuery_ctor (DataReference_ctor 0 (Some ''chats''))"]
    where_validates_eagerly [of "''==''" "''x''" "CValue JUndefined"
          "DataReferenceQuery_ctor (DataReference_ctor 0 (Some ''chats''))"]
    where_validates_eagerly [of "''between''" "''x''" "CValue (JArray [JNumber 1])"
          "DataReferenceQuery_ctor (DataReference_ctor 0 (Some ''chats''))"]
    where_validates_eagerly [of "''custom''" "''x''" "CValue (JNumber 3)"
          "DataReferenceQuery_ctor (DataReference_ctor 0 (Some ''chats''))"]
    where_validates_eagerly [of "''between''" "''x''" "CValue (JArray [JNumber 1, JNumber 5])"
          "DataReferenceQuery_ctor (DataReference_ctor 0 (Some ''chats''))"]
  by (auto simp: DataReferenceQuery_ctor_def)

section \<open>Validation in set, update and remove\<close>

lemma getPathInfo_parent_None: "getPathInfo_parent p = None \<longleftrightarrow> p = []"
  by (simp add: getPathInfo_parent_def split: option.splits)

lemma parent_None_iff: "DataReference_parent r = None \<longleftrightarrow> path r = []"
  using getPathInfo_parent_None [of "path r"]
  by (auto simp: DataReference_parent_def split: option.splits)
lemma world_at_simps:
  "path (self (world_at p)) = trim_slashes p" "api (world_at p) = []"
  by (simp_all add: world_at_def DataReference_ctor_def Let_def)

lemma trim_a: "trim_slashes ''a'' = ''a''" "trim_slashes [] = []"
  by (simp_all add: trim_slashes_def)

text \<open>
  C2. On a Reference that is not the root, \<open>set(undefined)\<close> throws a \<open>TypeError\<close>; on the
  root Reference \<open>set(v)\<close> throws for every \<open>v\<close>, and so does \<open>remove()\<close>. In each case the
  world after the call is the world before it: no backend call was issued.
\<close>

theorem set_and_remove_validate_first:
  "(path (self w) \<noteq> [] \<longrightarrow> DataReference_set tm JUndefined w = (Inl TypeError, w))
   \<and> (path (self w) = [] \<longrightarrow>
        DataReference_set tm v w
          = (Inl (Error ''Cannot set the root object. Use update, or set individual child properties''), w)
        \<and> DataReference_remove tm w = (Inl (Error ''Cannot remove the top node''), w))"
  by (simp add: DataReference_set_def DataReference_remove_def parent_None_iff)

theorem set_and_remove_validate_first_witness:
  "DataReference_set tm_plain JUndefined (world_at ''a'') = (Inl TypeError, world_at ''a'')
   \<and> api (snd (DataReference_set tm_plain JUndefined (world_at ''a''))) = []
   \<and> DataReference_set tm_plain JNull (world_at '''')
        = (Inl (Error ''Cannot set the root object. Use update, or set individual child properties''), world_at '''')
   \<and> DataReference_remove tm_plain (world_at '''') = (Inl (Error ''Cannot remove the top node''), world_at '''')"
  using set_and_remove_validate_first [of "world_at ''a''" tm_plain JNull]
    set_and_remove_validate_first [of "world_at ''''" tm_plain JNull]
  by (simp add: world_at_simps trim_a)

lemma update_as_set:
  "typeof u \<noteq> ''object'' \<or> is_Array u \<or> is_ArrayBuffer u \<or> is_Date u
   \<Longrightarrow> DataReference_update tm u w = DataReference_set tm u w"
  by (simp add: DataReference_update_def)

text \<open>
  C3. \<open>update(updates)\<close> is \<open>set(updates)\<close> when \<open>updates\<close> is an array, a binary value, a
  \<open>Date\<close> or a scalar (lemma \<open>update_as_set\<close>), but the test \<open>typeof updates !== "object"\<close>
  lets \<open>null\<close> through: on the Reference at \<open>a\<close>, \<open>update(null)\<close> issues the backend call
  \<open>update\<close>, where \<open>set(null)\<close> issues the backend call \<open>set\<close>.
\<close>

theorem update_null_calls_backend_update:
  "DataReference_update tm_plain JNull (world_at ''a'')
     = (Inr ''a'', (world_at ''a'')\<lparr>api := [ApiUpdate ''a'' JNull]\<rparr>)
   \<and> DataReference_set tm_plain JNull (world_at ''a'')
     = (Inr ''a'', (world_at ''a'')\<lparr>api := [ApiSet ''a'' JNull]\<rparr>)"
  by (simp add: DataReference_update_def DataReference_set_def parent_None_iff world_at_simps trim_a
      tm_plain_def)

theorem update_null_calls_backend_update_witness:
  "fst (DataReference_update tm_plain JNull (world_at ''a'')) = Inr ''a''
   \<and> api (snd (DataReference_update tm_plain JNull (world_at ''a''))) = [ApiUpdate ''a'' JNull]
   \<and> api (snd (DataReference_set tm_plain JNull (world_at ''a''))) = [ApiSet ''a'' JNull]"
  using update_null_calls_backend_update by simp

section \<open>A delivery that carries an error\<close>

lemma world_subscribed_fields:
  "callbacks (self world_subscribed) = [reg7]"
  "api world_subscribed = [ApiSubscribe ''a'' ''child_changed'' 0]"
  "streams world_subscribed = [\<lparr>published = [], stopped = [], keep_alive = False\<rparr>]"
  "invoked world_subscribed = []"
  "debug_log world_subscribed = []"
  "db (self world_subscribed) = 0"
  by (simp_all add: world_subscribed_def reg7_def DataReference_on_def Let_def world_at_def
      DataReference_ctor_def trim_a)

lemma publish_log:
  "EventStream_publish sid snap (w\<lparr>debug_log := L\<rparr>)
     = (fst (EventStream_publish sid snap w), (snd (EventStream_publish sid snap w))\<lparr>debug_log := L\<rparr>)"
  "debug_log (snd (EventStream_publish sid snap w)) = debug_log w"
  by (simp_all add: EventStream_publish_def)

lemma stop_log:
  "EventStream_stop sid h (w\<lparr>debug_log := L\<rparr>) = (EventStream_stop sid h w)\<lparr>debug_log := L\<rparr>"
  "debug_log (EventStream_stop sid h w) = debug_log w"
  by (simp_all add: EventStream_stop_def)

lemma fold_stop_log:
  "fold (\<lambda>cb. EventStream_stop (subscr cb) None) cbs (w\<lparr>debug_log := L\<rparr>)
     = (fold (\<lambda>cb. EventStream_stop (subscr cb) None) cbs w)\<lparr>debug_log := L\<rparr>
   \<and> debug_log (fold (\<lambda>cb. EventStream_stop (subscr cb) None) cbs w) = debug_log w
   \<and> self (fold (\<lambda>cb. EventStream_stop (subscr cb) None) cbs w) = self w
   \<and> api (fold (\<lambda>cb. EventStream_stop (subscr cb) None) cbs w) = api w"
  by (induction cbs arbitrary: w) (simp_all add: stop_log, simp add: EventStream_stop_def)

lemma off_log:
  fixes w :: "'t world"
  shows "DataReference_off ev c (w\<lparr>debug_log := L\<rparr>)
     = (DataReference_off ev c w)\<lparr>debug_log := L @ drop (length (debug_log w))
                                        (debug_log (DataReference_off ev c w))\<rparr>"
proof (cases "truthy c")
  case True
  then show ?thesis
    by (cases "find (\<lambda>cb. original cb = c) (callbacks (self w))")
      (simp_all add: DataReference_off_def Let_def EventStream_stop_def)
next
  case False
  define X where "X = fold (\<lambda>cb. EventStream_stop (subscr cb) None) (callbacks (self w))
      (w\<lparr>self := (self w)\<lparr>callbacks := []\<rparr>\<rparr>)"
  have sw: "w\<lparr>debug_log := L, self := (self w)\<lparr>callbacks := []\<rparr>\<rparr>
      = (w\<lparr>self := (self w)\<lparr>callbacks := []\<rparr>\<rparr>)\<lparr>debug_log := L\<rparr>"
    by (cases w) simp
  have f: "fold (\<lambda>cb. EventStream_stop (subscr cb) None) (callbacks (self w))
      (w\<lparr>debug_log := L, self := (self w)\<lparr>callbacks := []\<rparr>\<rparr>) = X\<lparr>debug_log := L\<rparr>"
    unfolding sw X_def
    using fold_stop_log [where w = "w\<lparr>self := (self w)\<lparr>callbacks := []\<rparr>\<rparr>" and L = L
        and cbs = "callbacks (self w)"] by blast
  have fx: "debug_log X = debug_log w" "self X = (self w)\<lparr>callbacks := []\<rparr>" "api X = api w"
    unfolding X_def
    using fold_stop_log [where w = "w\<lparr>self := (self w)\<lparr>callbacks := []\<rparr>\<rparr>" and L = L
        and cbs = "callbacks (self w)"] by simp_all
  have l: "DataReference_off ev c (w\<lparr>debug_log := L\<rparr>)
      = X\<lparr>debug_log := L, api := api w @ [ApiUnsubscribe (path (self w)) ev None]\<rparr>"
    using False by (simp add: DataReference_off_def Let_def f fx)
  have r: "DataReference_off ev c w = X\<lparr>api := api w @ [ApiUnsubscribe (path (self w)) ev None]\<rparr>"
    using False by (simp add: DataReference_off_def Let_def fx X_def [symmetric])
  show ?thesis
    unfolding l r by (rule world.equality) (simp_all add: fx)
qed

lemma call_log:
  fixes w :: "'t world"
  shows "call_callback c snap (w\<lparr>debug_log := L\<rparr>)
     = (call_callback c snap w)\<lparr>debug_log := L @ drop (length (debug_log w))
                                        (debug_log (call_callback c snap w))\<rparr>"
proof (cases c)
  case (CbOnce p ev)
  have r: "resolve_promise p snap (v\<lparr>debug_log := M\<rparr>) = (resolve_promise p snap v)\<lparr>debug_log := M\<rparr>"
    "debug_log (resolve_promise p snap v) = debug_log v" for v :: "'t world" and M
    by (simp_all add: resolve_promise_def)
  show ?thesis
    unfolding CbOnce call_callback.simps
    by (subst off_log) (simp add: r)
qed simp_all

lemma ours_log:
  fixes w :: "'t world"
  shows "DataReference_ours tm cb err pth nv ov (w\<lparr>debug_log := L\<rparr>)
     = (fst (DataReference_ours tm cb err pth nv ov w),
        (snd (DataReference_ours tm cb err pth nv ov w))
          \<lparr>debug_log := L @ drop (length (debug_log w))
                             (debug_log (snd (DataReference_ours tm cb err pth nv ov w)))\<rparr>)"
proof (cases "truthy_error err")
  case True
  then show ?thesis by (simp add: DataReference_ours_def)
next
  case False
  show ?thesis
  proof (cases "tm_deserialize tm pth (if on_event cb = ''child_removed'' then ov else nv)")
    case (Inl e)
    with False show ?thesis by (simp add: DataReference_ours_def)
  next
    case (Inr val)
    let ?snap = "\<lparr>snap_path = path (DataReference_ctor (db (self w)) (Some pth)), snap_val = val\<rparr>"
    show ?thesis
    proof (cases "is_function (original cb)")
      case True
      with False Inr show ?thesis
        apply (simp add: DataReference_ours_def Let_def case_prod_beta)
        apply (subst call_log)
        apply (simp add: publish_log)
        done
    next
      case nf: False
      with False Inr show ?thesis
        by (simp add: DataReference_ours_def Let_def case_prod_beta publish_log EventStream_publish_def)
    qed
  qed
qed

lemma publish_published:
  "sid < length (streams w)
   \<Longrightarrow> published (streams (snd (EventStream_publish sid snap w)) ! sid)
       = published (streams w ! sid) @ [snap]"
  by (simp add: EventStream_publish_def)

lemma stop_published: "published (streams (EventStream_stop sid h w) ! i) = published (streams w ! i)"
  by (cases "i = sid") (simp_all add: EventStream_stop_def)

lemma stop_length: "length (streams (EventStream_stop sid h w)) = length (streams w)"
  by (simp add: EventStream_stop_def)

lemma fold_stop_published:
  "published (streams (fold (\<lambda>cb. EventStream_stop (subscr cb) None) cbs w) ! i)
     = published (streams w ! i)
   \<and> length (streams (fold (\<lambda>cb. EventStream_stop (subscr cb) None) cbs w)) = length (streams w)"
  by (induction cbs arbitrary: w) (simp_all add: stop_published stop_length)

lemma off_published:
  "published (streams (DataReference_off ev c w) ! i) = published (streams w ! i)
   \<and> length (streams (DataReference_off ev c w)) = length (streams w)"
proof (cases "truthy c")
  case True
  then show ?thesis
    by (cases "find (\<lambda>cb. original cb = c) (callbacks (self w))")
      (simp_all add: DataReference_off_def Let_def stop_published stop_length)
next
  case False
  then show ?thesis
    by (simp add: DataReference_off_def Let_def fold_stop_published)
qed

lemma call_published:
  "published (streams (call_callback c snap w) ! i) = published (streams w ! i)
   \<and> length (streams (call_callback c snap w)) = length (streams w)"
  by (cases c) (simp_all add: resolve_promise_def off_published)

lemma ours_publishes:
  assumes "\<not> truthy_error err" "subscr cb < length (streams w)"
    "tm_deserialize tm pth (if on_event cb = ''child_removed'' then ov else nv) = Inr v"
  shows "published (streams (snd (DataReference_ours tm cb err pth nv ov w)) ! subscr cb)
     = published (streams w ! subscr cb)
         @ [\<lparr>snap_path = path (DataReference_ctor (db (self w)) (Some pth)), snap_val = v\<rparr>]"
proof -
  let ?snap = "\<lparr>snap_path = path (DataReference_ctor (db (self w)) (Some pth)), snap_val = v\<rparr>"
  let ?w1 = "if is_function (original cb) then call_callback (original cb) ?snap w else w"
  have l: "subscr cb < length (streams ?w1)"
    "published (streams ?w1 ! subscr cb) = published (streams w ! subscr cb)"
    using assms(2) by (simp_all add: call_published)
  define w2 where "w2 = snd (EventStream_publish (subscr cb) ?snap ?w1)"
  have q: "published (streams w2 ! subscr cb) = published (streams w ! subscr cb) @ [?snap]"
    unfolding w2_def using publish_published [OF l(1)] l(2) by simp
  have "streams (snd (DataReference_ours tm cb err pth nv ov w)) = streams w2"
    using assms(1,3) by (simp add: DataReference_ours_def Let_def case_prod_beta w2_def)
  with q show ?thesis by simp
qed

text \<open>
  C8. When the backend calls the handler of a registration with an error (a value for
  which \<open>if (err)\<close> holds), the error is logged and nothing else happens: the world after
  the call is the world before it with one more entry in the debug log, so the callback
  list of the Reference, the backend calls, the streams and the calls of application
  callbacks are as they were. A later delivery without error, to this or to any other
  registration, then does what it would have done had the error never been delivered, the
  entry in the log apart. So it still reaches the stream and the callback: for every
  registration with a stream of the world the snapshot is appended to what the stream
  published; for a registration with an application callback it is appended to the calls
  of that callback, and the callback list and the backend calls stay as they were; and so
  they do for a registration without a function callback whose stream has a listener.
\<close>

theorem delivery_error_keeps_subscription:
  fixes w :: "'t world"
  shows "(truthy_error err \<longrightarrow>
      DataReference_ours tm cb err pth nv ov w
        = (Inr (), w\<lparr>debug_log := debug_log w @ [DeliveryError (on_event cb) pth (the err)]\<rparr>))
   \<and> (truthy_error err \<and> \<not> truthy_error err' \<longrightarrow>
       (let w1 = snd (DataReference_ours tm cb err pth nv ov w);
            later = DataReference_ours tm cb' err' pth' nv' ov' w1;
            alone = DataReference_ours tm cb' err' pth' nv' ov' w;
            snap = \<lparr>snap_path = path (DataReference_ctor (db (self w)) (Some pth')), snap_val = v\<rparr>;
            good = (tm_deserialize tm pth' (if on_event cb' = ''child_removed'' then ov' else nv') = Inr v)
        in self w1 = self w \<and> api w1 = api w \<and> streams w1 = streams w \<and> invoked w1 = invoked w
           \<and> fst later = fst alone
           \<and> snd later = (snd alone)\<lparr>debug_log := debug_log w1
                               @ drop (length (debug_log w)) (debug_log (snd alone))\<rparr>
           \<and> (good \<and> subscr cb' < length (streams w) \<longrightarrow>
                 published (streams (snd later) ! subscr cb')
                   = published (streams w ! subscr cb') @ [snap])
           \<and> (good \<and> original cb' = CbUser n \<longrightarrow>
                 invoked (snd later) = invoked w @ [(n, snap)]
                 \<and> callbacks (self (snd later)) = callbacks (self w) \<and> api (snd later) = api w)
           \<and> (good \<and> \<not> is_function (original cb') \<and> subscr cb' < length (streams w)
                 \<and> keep_alive (streams w ! subscr cb') \<longrightarrow>
                 invoked (snd later) = invoked w
                 \<and> callbacks (self (snd later)) = callbacks (self w) \<and> api (snd later) = api w)))"
proof -
  let ?e = "DeliveryError (on_event cb) pth (the err)"
  let ?w1 = "w\<lparr>debug_log := debug_log w @ [?e]\<rparr>"
  let ?alone = "DataReference_ours tm cb' err' pth' nv' ov' w"
  let ?later = "DataReference_ours tm cb' err' pth' nv' ov' ?w1"
  let ?snap = "\<lparr>snap_path = path (DataReference_ctor (db (self w)) (Some pth')), snap_val = v\<rparr>"
  let ?good = "tm_deserialize tm pth' (if on_event cb' = ''child_removed'' then ov' else nv') = Inr v"
  have a: "truthy_error err \<Longrightarrow> DataReference_ours tm cb err pth nv ov w = (Inr (), ?w1)"
    by (simp add: DataReference_ours_def)
  have l: "?later = (fst ?alone, (snd ?alone)\<lparr>debug_log := debug_log ?w1
                               @ drop (length (debug_log w)) (debug_log (snd ?alone))\<rparr>)"
    using ours_log [where w = w and L = "debug_log w @ [?e]" and tm = tm and cb = cb' and err = err'
        and pth = pth' and nv = nv' and ov = ov'] by simp
  have p: "published (streams (snd ?later) ! subscr cb') = published (streams w ! subscr cb') @ [?snap]"
    if "\<not> truthy_error err'" "?good" "subscr cb' < length (streams w)"
    using ours_publishes [where w = ?w1 and cb = cb' and tm = tm and v = v and err = err', OF that(1)] that
    by simp
  have u: "invoked (snd ?later) = invoked w @ [(n, ?snap)]
       \<and> callbacks (self (snd ?later)) = callbacks (self w) \<and> api (snd ?later) = api w"
    if "\<not> truthy_error err'" "?good" "original cb' = CbUser n"
    using that by (simp add: DataReference_ours_def Let_def case_prod_beta EventStream_publish_def)
  have k: "invoked (snd ?later) = invoked w
       \<and> callbacks (self (snd ?later)) = callbacks (self w) \<and> api (snd ?later) = api w"
    if "\<not> truthy_error err'" "?good" "\<not> is_function (original cb')" "subscr cb' < length (streams w)"
      "keep_alive (streams w ! subscr cb')"
    using that by (simp add: DataReference_ours_def Let_def case_prod_beta EventStream_publish_def)
  show ?thesis
  proof (cases "truthy_error err")
    case False
    then show ?thesis by simp
  next
    case True
    note a1 = a [OF True]
    show ?thesis
    proof (cases "truthy_error err'")
      case True
      with a1 show ?thesis by simp
    next
      case False
      have l1: "fst ?later = fst ?alone"
        "snd ?later = (snd ?alone)\<lparr>debug_log := debug_log ?w1
                               @ drop (length (debug_log w)) (debug_log (snd ?alone))\<rparr>"
        by (simp_all add: l)
      show ?thesis
        unfolding Let_def a1 snd_conv
        using l1 p [OF False] u [OF False] k [OF False] by simp
    qed
  qed
qed

theorem delivery_error_keeps_subscription_witness:
  "truthy_error (Some ''offline'') \<and> \<not> truthy_error (Some [])
   \<and> reg7 \<in> set (callbacks (self world_subscribed))
   \<and> tm_deserialize tm_plain ''a/x'' (if on_event reg7 = ''child_removed'' then JNull else JNumber 1)
        = Inr (JNumber 1)
   \<and> subscr reg7 < length (streams world_subscribed) \<and> original reg7 = CbUser 7
   \<and> (let w1 = snd (DataReference_ours tm_plain reg7 (Some ''offline'') ''a/x'' JNull JNull world_subscribed);
          w2 = snd (DataReference_ours tm_plain reg7 (Some []) ''a/x'' (JNumber 1) JNull w1);
          snap = \<lparr>snap_path = path (DataReference_ctor (db (self world_subscribed)) (Some ''a/x'')),
                   snap_val = JNumber 1\<rparr>
      in w1 = world_subscribed\<lparr>debug_log := [DeliveryError ''child_changed'' ''a/x'' ''offline'']\<rparr>
         \<and> invoked w2 = invoked world_subscribed @ [(7, snap)]
         \<and> published (streams w2 ! subscr reg7)
              = published (streams world_subscribed ! subscr reg7) @ [snap]
         \<and> callbacks (self w2) = callbacks (self world_subscribed) \<and> api w2 = api world_subscribed)"
proof -
  have h: "truthy_error (Some ''offline'')" "\<not> truthy_error (Some [])"
    "tm_deserialize tm_plain ''a/x'' (if on_event reg7 = ''child_removed'' then JNull else JNumber 1)
            = Inr (JNumber 1)"
    "subscr reg7 < length (streams world_subscribed)" "original reg7 = CbUser 7"
    by (simp_all add: reg7_def world_subscribed_fields tm_plain_def)
  have m: "reg7 \<in> set (callbacks (self world_subscribed))"
    by (simp add: world_subscribed_fields)
  have d: "debug_log world_subscribed = []" "on_event reg7 = ''child_changed''"
    by (simp_all add: world_subscribed_fields reg7_def)
  note t = delivery_error_keeps_subscription [where tm = tm_plain and cb = reg7 and w = world_subscribed
        and err = "Some ''offline''" and pth = "''a/x''" and nv = JNull and ov = JNull and n = 7
        and cb' = reg7 and err' = "Some []"
        and pth' = "''a/x''" and nv' = "JNumber 1" and ov' = JNull and v = "JNumber 1", unfolded Let_def]
  have t1: "DataReference_ours tm_plain reg7 (Some ''offline'') ''a/x'' JNull JNull world_subscribed
      = (Inr (), world_subscribed\<lparr>debug_log := [DeliveryError ''child_changed'' ''a/x'' ''offline'']\<rparr>)"
    using t [THEN conjunct1] h(1) d by simp
  have t2: "published (streams (snd (DataReference_ours tm_plain reg7 (Some []) ''a/x'' (JNumber 1) JNull
        (snd (DataReference_ours tm_plain reg7 (Some ''offline'') ''a/x'' JNull JNull world_subscribed)))) ! subscr reg7)
      = published (streams world_subscribed ! subscr reg7)
          @ [\<lparr>snap_path = path (DataReference_ctor (db (self world_subscribed)) (Some ''a/x'')),
                   snap_val = JNumber 1\<rparr>]"
    using t [THEN conjunct2] h by blast
  have t3: "invoked (snd (DataReference_ours tm_plain reg7 (Some []) ''a/x'' (JNumber 1) JNull
        (snd (DataReference_ours tm_plain reg7 (Some ''offline'') ''a/x'' JNull JNull world_subscribed))))
      = invoked world_subscribed
          @ [(7, \<lparr>snap_path = path (DataReference_ctor (db (self world_subscribed)) (Some ''a/x'')),
                   snap_val = JNumber 1\<rparr>)]
     \<and> callbacks (self (snd (DataReference_ours tm_plain reg7 (Some []) ''a/x'' (JNumber 1) JNull
        (snd (DataReference_ours tm_plain reg7 (Some ''offline'') ''a/x'' JNull JNull world_subscribed)))))
        = callbacks (self world_subscribed)
     \<and> api (snd (DataReference_ours tm_plain reg7 (Some []) ''a/x'' (JNumber 1) JNull
        (snd (DataReference_ours tm_plain reg7 (Some ''offline'') ''a/x'' JNull JNull world_subscribed))))
        = api world_subscribed"
    using t [THEN conjunct2] h by blast
  have t1': "snd (DataReference_ours tm_plain reg7 (Some ''offline'') ''a/x'' JNull JNull world_subscribed)
      = world_subscribed\<lparr>debug_log := [DeliveryError ''child_changed'' ''a/x'' ''offline'']\<rparr>"
    by (simp only: t1 snd_conv)
  show ?thesis
    unfolding Let_def
    by (intro conjI h m t1' t2 t3 [THEN conjunct1] t3 [THEN conjunct2, THEN conjunct1]
        t3 [THEN conjunct2, THEN conjunct2])
qed

section \<open>The one-shot subscription of once\<close>

lemma find_append_one_None:
  "find P xs = None \<Longrightarrow> \<not> P x \<Longrightarrow> find P (xs @ [x]) = None"
  by (induction xs) auto

lemma off_not_found:
  "truthy cb \<Longrightarrow> find (\<lambda>c. original c = cb) (callbacks (self w)) = None
   \<Longrightarrow> DataReference_off ev cb w
       = w\<lparr>debug_log := debug_log w @ [CallbackNotFound (path (self w)) ev]\<rparr>"
  by (simp add: DataReference_off_def Let_def)

lemma once_keeps_registration:
  assumes ev: "ev \<noteq> ''value''"
    and de: "tm_deserialize tm pth (if ev = ''child_removed'' then ov else nv) = Inr v"
    and fresh: "\<forall>cb \<in> set (callbacks (self w)).
        original cb \<noteq> CbSnapshot \<lparr>snap_path = path (DataReference_ctor (db (self w)) (Some pth)), snap_val = v\<rparr>"
  shows "(let p = fst (DataReference_once ev opts w);
              w1 = snd (DataReference_once ev opts w);
              reg = \<lparr>subscr = length (streams w), original = CbOnce (length (promises w)) ev,
                      ours = next_handler w, on_event = ev\<rparr>;
              w2 = snd (DataReference_ours tm reg None pth nv ov w1);
              snap = \<lparr>snap_path = path (DataReference_ctor (db (self w)) (Some pth)), snap_val = v\<rparr>
          in p = length (promises w)
             \<and> callbacks (self w1) = callbacks (self w) @ [reg]
             \<and> promises w2 ! p = Resolved snap
             \<and> callbacks (self w2) = callbacks (self w) @ [reg]
             \<and> api w2 = api w1)"
proof -
  let ?snap = "\<lparr>snap_path = path (DataReference_ctor (db (self w)) (Some pth)), snap_val = v\<rparr>"
  let ?reg = "\<lparr>subscr = length (streams w), original = CbOnce (length (promises w)) ev,
                      ours = next_handler w, on_event = ev\<rparr>"
  define w1 where "w1 = snd (DataReference_once ev opts w)"
  have p: "fst (DataReference_once ev opts w) = length (promises w)"
    using ev by (simp add: DataReference_once_def DataReference_on_def DataReference_get_def
        Let_def case_prod_beta)
  have f1: "callbacks (self w1) = callbacks (self w) @ [?reg]" "db (self w1) = db (self w)"
    "length (promises w) < length (promises w1)" "promises w1 ! length (promises w) = Pending"
    using ev by (simp_all add: w1_def DataReference_once_def DataReference_on_def
        DataReference_get_def Let_def case_prod_beta nth_append)
  have nf: "find (\<lambda>c. original c = CbSnapshot ?snap) (callbacks (self w1)) = None"
    unfolding f1 using fresh by (intro find_append_one_None) (auto simp: find_None_iff)
  have off: "DataReference_off (Some ev) (CbSnapshot ?snap) w1
       = w1\<lparr>debug_log := debug_log w1 @ [CallbackNotFound (path (self w1)) (Some ev)]\<rparr>"
    using nf by (simp add: off_not_found)
  have "(let w2 = snd (DataReference_ours tm ?reg None pth nv ov w1)
         in promises w2 ! length (promises w) = Resolved ?snap
            \<and> callbacks (self w2) = callbacks (self w) @ [?reg] \<and> api w2 = api w1)"
    using de f1
    by (simp add: DataReference_ours_def Let_def off resolve_promise_def EventStream_publish_def
        case_prod_beta)
  then show ?thesis
    using p f1 by (simp add: Let_def w1_def)
qed

lemma once_value_is_get: "DataReference_once ''value'' opts w = DataReference_get opts w"
  by (simp add: DataReference_once_def)

text \<open>
  C7. \<open>once("value", options)\<close> is \<open>get(options)\<close> (lemma \<open>once_value_is_get\<close>), and for
  another event the promise resolves with the snapshot of the first delivery. But the
  one-shot callback calls \<open>this.off(event, snap)\<close> with the snapshot where the callback
  belongs, so \<open>off\<close> finds no registration, logs that and returns: after
  \<open>once("child_changed")\<close> on the Reference at \<open>a\<close> and the first delivery, the promise is
  resolved, the registration is still on the callback list and the backend was never
  asked to unsubscribe. Lemma \<open>once_keeps_registration\<close> shows the same for every world
  and every event other than \<open>value\<close>.
\<close>

theorem once_leaves_registration:
  "(let w1 = snd (DataReference_once ''child_changed'' JUndefined (world_at ''a''));
        reg = \<lparr>subscr = 0, original = CbOnce 0 ''child_changed'', ours = 0, on_event = ''child_changed''\<rparr>;
        w2 = snd (DataReference_ours tm_plain reg None ''a/x'' (JNumber 1) JNull w1)
    in fst (DataReference_once ''child_changed'' JUndefined (world_at ''a'')) = 0
       \<and> callbacks (self w1) = [reg]
       \<and> api w1 = [ApiSubscribe ''a'' ''child_changed'' 0]
       \<and> promises w2 = [Resolved \<lparr>snap_path = ''a/x'', snap_val = JNumber 1\<rparr>]
       \<and> callbacks (self w2) = [reg]
       \<and> api w2 = [ApiSubscribe ''a'' ''child_changed'' 0]
       \<and> debug_log w2 = [CallbackNotFound ''a'' (Some ''child_changed'')])"
  by (simp add: DataReference_once_def DataReference_on_def DataReference_ours_def Let_def
      world_at_def DataReference_ctor_def trim_slashes_def tm_plain_def DataReference_off_def
      resolve_promise_def EventStream_publish_def)

theorem once_leaves_registration_witness:
  "callbacks (self (snd (DataReference_ours tm_plain
      \<lparr>subscr = 0, original = CbOnce 0 ''child_changed'', ours = 0, on_event = ''child_changed''\<rparr>
      None ''a/x'' (JNumber 1) JNull
      (snd (DataReference_once ''child_changed'' JUndefined (world_at ''a''))))))
   = [\<lparr>subscr = 0, original = CbOnce 0 ''child_changed'', ours = 0, on_event = ''child_changed''\<rparr>]"
  using once_leaves_registration by (simp add: Let_def)

section \<open>Path and key of a Reference\<close>

lemma double_sep_iff: "double_sep p \<longleftrightarrow> (\<exists>xs ys. p = xs @ ''//'' @ ys)"
proof (induction p)
  case Nil
  then show ?case by simp
next
  case (Cons a q)
  show ?case
  proof
    assume "double_sep (a # q)"
    then consider "a = CHR ''/'' \<and> q \<noteq> [] \<and> hd q = CHR ''/''" | "double_sep q" by auto
    then show "\<exists>xs ys. a # q = xs @ ''//'' @ ys"
    proof cases
      case 1
      then have "a # q = [] @ ''//'' @ tl q" by (cases q) auto
      then show ?thesis by blast
    next
      case 2
      with Cons.IH obtain xs ys where "q = xs @ ''//'' @ ys" by auto
      then have "a # q = (a # xs) @ ''//'' @ ys" by simp
      then show ?thesis by blast
    qed
  next
    assume "\<exists>xs ys. a # q = xs @ ''//'' @ ys"
    then obtain xs ys where e: "a # q = xs @ ''//'' @ ys" by auto
    show "double_sep (a # q)"
    proof (cases xs)
      case Nil
      with e show ?thesis by auto
    next
      case (Cons x xs')
      with e have "q = xs' @ ''//'' @ ys" by simp
      with Cons.IH have "double_sep q" by blast
      then show ?thesis by simp
    qed
  qed
qed

lemma double_sep_append_left: "double_sep xs \<Longrightarrow> double_sep (xs @ ys)"
  unfolding double_sep_iff by (metis append.assoc)

lemma double_sep_append_right: "double_sep ys \<Longrightarrow> double_sep (xs @ ys)"
  unfolding double_sep_iff by (metis append.assoc)

lemma double_sep_take: "double_sep (take i p) \<Longrightarrow> double_sep p"
  using double_sep_append_left [of "take i p" "drop i p"] by simp

lemma double_sep_tl: "double_sep (tl p) \<Longrightarrow> double_sep p"
  using double_sep_append_right [of "tl p" "[hd p]"] by (cases p) auto

lemma double_sep_butlast: "double_sep (butlast p) \<Longrightarrow> double_sep p"
  using double_sep_append_left [of "butlast p" "[last p]"] by (cases "p = []") auto

lemma double_sep_back: "double_sep (xs @ ''//'')"
  unfolding double_sep_iff by (metis append_Nil2)

lemma no_double_sep_clean_trim:
  assumes "\<not> double_sep p"
  shows "canonical (trim_slashes p) \<and> \<not> double_sep (trim_slashes p)"
proof -
  define p1 where "p1 = (if p \<noteq> [] \<and> hd p = CHR ''/'' then tl p else p)"
  define p2 where "p2 = (if p1 \<noteq> [] \<and> last p1 = CHR ''/'' then butlast p1 else p1)"
  have t: "trim_slashes p = p2"
    by (simp add: trim_slashes_def p1_def p2_def Let_def)
  have n1: "\<not> double_sep p1"
    using assms double_sep_tl by (auto simp: p1_def)
  have h1: "p1 = [] \<or> hd p1 \<noteq> CHR ''/''"
  proof (cases "p \<noteq> [] \<and> hd p = CHR ''/''")
    case True
    then obtain q where q: "p = CHR ''/'' # q" by (cases p) auto
    then have "p1 = q" by (simp add: p1_def)
    moreover have "q = [] \<or> hd q \<noteq> CHR ''/''"
      using assms q by (cases q) auto
    ultimately show ?thesis by simp
  next
    case False
    then show ?thesis by (auto simp: p1_def)
  qed
  have n2: "\<not> double_sep p2"
    using n1 double_sep_butlast by (auto simp: p2_def)
  have l2: "p2 = [] \<or> last p2 \<noteq> CHR ''/''"
  proof (cases "p1 \<noteq> [] \<and> last p1 = CHR ''/''")
    case True
    then obtain q where q: "p1 = q @ ''/''" by (metis append_butlast_last_id)
    then have p2q: "p2 = q" by (simp add: p2_def)
    show ?thesis
    proof (cases "q = [] \<or> last q \<noteq> CHR ''/''")
      case True
      then show ?thesis using p2q by simp
    next
      case False
      then obtain q' where "q = q' @ ''/''" by (metis append_butlast_last_id)
      with q have "p1 = q' @ ''//''" by simp
      with n1 double_sep_back show ?thesis by metis
    qed
  next
    case False
    then show ?thesis by (auto simp: p2_def)
  qed
  have h2: "p2 = [] \<or> hd p2 \<noteq> CHR ''/''"
    using h1 by (cases p1 rule: rev_cases; cases "butlast p1") (auto simp: p2_def hd_append)
  show ?thesis
    using t n2 l2 h2 by (auto simp: canonical_def)
qed

lemma after_last_slash_split:
  "\<exists>pre. p = pre @ after_last_slash p \<and> (pre = [] \<or> last pre = CHR ''/'')
         \<and> CHR ''/'' \<notin> set (after_last_slash p)"
proof -
  let ?P = "\<lambda>c. c \<noteq> CHR ''/''"
  let ?pre = "rev (dropWhile ?P (rev p))"
  have "rev (takeWhile ?P (rev p) @ dropWhile ?P (rev p)) = rev (rev p)"
    by (simp only: takeWhile_dropWhile_id)
  then have a: "p = ?pre @ after_last_slash p"
    by (simp only: after_last_slash_def rev_append rev_rev_ident)
  have b: "?pre = [] \<or> last ?pre = CHR ''/''"
    using hd_dropWhile [of ?P "rev p"] by (auto simp: last_rev)
  have c: "CHR ''/'' \<notin> set (after_last_slash p)"
    using set_takeWhileD [of "CHR ''/''" ?P "rev p"] by (auto simp: after_last_slash_def)
  from a b c show ?thesis by blast
qed

lemma trim_canonical: "canonical p \<Longrightarrow> trim_slashes p = p"
  by (auto simp: canonical_def trim_slashes_def)

lemma canonical_join:
  assumes "canonical a" "canonical b" "a \<noteq> []" "b \<noteq> []"
  shows "canonical (a @ ''/'' @ b)"
  using assms by (auto simp: canonical_def hd_append)

lemma double_sep_append_iff:
  "double_sep (xs @ ys) \<longleftrightarrow>
     double_sep xs \<or> double_sep ys \<or> (xs \<noteq> [] \<and> ys \<noteq> [] \<and> last xs = CHR ''/'' \<and> hd ys = CHR ''/'')"
proof (induction xs)
  case Nil
  then show ?case by simp
next
  case (Cons a xs)
  then show ?case by (cases xs; cases ys) auto
qed

lemma child_path_clean:
  assumes "canonical a" "canonical b"
  shows "trim_slashes (a @ ''/'' @ b) = (if a = [] then b else if b = [] then a else a @ ''/'' @ b)"
proof (cases "a = []")
  case True
  then show ?thesis using assms(2) by (cases b rule: rev_cases) (auto simp: trim_slashes_def canonical_def)
next
  case False
  note a = this
  show ?thesis
  proof (cases "b = []")
    case True
    then show ?thesis using a assms(1) by (cases a) (auto simp: trim_slashes_def canonical_def)
  next
    case False
    then show ?thesis using a trim_canonical [OF canonical_join [OF assms a False]] by simp
  qed
qed

lemma clean_join:
  assumes "canonical a" "\<not> double_sep a" "canonical b" "\<not> double_sep b"
  shows "canonical (trim_slashes (a @ ''/'' @ b)) \<and> \<not> double_sep (trim_slashes (a @ ''/'' @ b))"
proof -
  have "\<not> double_sep (a @ ''/'' @ b)"
    using assms by (auto simp: double_sep_append_iff canonical_def)
  then show ?thesis by (rule no_double_sep_clean_trim)
qed

lemma last_group_start_lt: "last_group_start p = Some i \<Longrightarrow> i < length p"
  by (induction p arbitrary: i) (auto split: option.splits if_splits)

lemma parent_is_prefix: "getPathInfo_parent p = Some pp \<Longrightarrow> \<exists>i. pp = take i p"
  by (auto simp: getPathInfo_parent_def split: if_splits option.splits intro: exI [of _ 0])

lemma parent_clean:
  assumes "\<not> double_sep p" "getPathInfo_parent p = Some pp"
  shows "canonical (trim_slashes pp) \<and> \<not> double_sep (trim_slashes pp)"
proof -
  from parent_is_prefix [OF assms(2)] obtain i where "pp = take i p" by blast
  with assms(1) double_sep_take have "\<not> double_sep pp" by blast
  then show ?thesis by (rule no_double_sep_clean_trim)
qed

lemma ctor_fields:
  "path (DataReference_ctor d p) = trim_slashes (case p of None \<Rightarrow> [] | Some s \<Rightarrow> s)"
  "key (DataReference_ctor d p)
     = (if path (DataReference_ctor d p) = [] then []
        else after_last_slash (path (DataReference_ctor d p)))"
  "db (DataReference_ctor d p) = d"
  "callbacks (DataReference_ctor d p) = []"
  by (simp_all add: DataReference_ctor_def Let_def)

lemma keeps_ref_refl: "keeps_ref w w"
  by (simp add: keeps_ref_def)

lemma keeps_ref_trans: "keeps_ref w w1 \<Longrightarrow> keeps_ref w1 w2 \<Longrightarrow> keeps_ref w w2"
  by (simp add: keeps_ref_def)

lemma keeps_ref_publish: "keeps_ref w (snd (EventStream_publish sid snap w))"
  by (simp add: keeps_ref_def EventStream_publish_def)

lemma keeps_ref_stop: "keeps_ref w (EventStream_stop sid h w)"
  by (simp add: keeps_ref_def EventStream_stop_def)

lemma keeps_ref_resolve: "keeps_ref w (resolve_promise p snap w)"
  by (simp add: keeps_ref_def resolve_promise_def)

lemma keeps_ref_fold_stop: "keeps_ref w (fold (\<lambda>cb. EventStream_stop (subscr cb) None) cbs w)"
proof (induction cbs arbitrary: w)
  case Nil
  then show ?case by (simp add: keeps_ref_refl)
next
  case (Cons c cbs)
  show ?case
    using keeps_ref_trans [OF keeps_ref_stop Cons.IH] by simp
qed

lemma keeps_ref_off: "keeps_ref w (DataReference_off ev cb w)"
proof (cases "truthy cb")
  case True
  then show ?thesis
    using keeps_ref_stop
    by (auto simp: DataReference_off_def Let_def keeps_ref_def EventStream_stop_def split: option.splits)
next
  case False
  have "keeps_ref (w\<lparr>self := (self w)\<lparr>callbacks := []\<rparr>\<rparr>)
          (fold (\<lambda>cb. EventStream_stop (subscr cb) None) (callbacks (self w))
             (w\<lparr>self := (self w)\<lparr>callbacks := []\<rparr>\<rparr>))"
    by (rule keeps_ref_fold_stop)
  with False show ?thesis
    by (simp add: DataReference_off_def Let_def keeps_ref_def)
qed

lemma keeps_ref_call: "keeps_ref w (call_callback cb snap w)"
proof (cases cb)
  case (CbOnce p ev)
  then show ?thesis
    using keeps_ref_trans [OF keeps_ref_off keeps_ref_resolve] by simp
qed (simp_all add: keeps_ref_def)

lemma keeps_ref_get: "keeps_ref w (snd (DataReference_get opts w))"
  by (simp add: keeps_ref_def DataReference_get_def Let_def)

lemma keeps_ref_on: "keeps_ref w (snd (DataReference_on ev cb w))"
  by (simp add: keeps_ref_def DataReference_on_def DataReference_get_def Let_def)

lemma keeps_ref_once: "keeps_ref w (snd (DataReference_once ev opts w))"
proof (cases "ev = ''value''")
  case True
  then show ?thesis by (simp add: DataReference_once_def keeps_ref_get)
next
  case False
  have "keeps_ref (w\<lparr>promises := promises w @ [Pending]\<rparr>)
     (snd (DataReference_on ev (CbOnce (length (promises w)) ev) (w\<lparr>promises := promises w @ [Pending]\<rparr>)))"
    by (rule keeps_ref_on)
  with False show ?thesis
    by (simp add: DataReference_once_def Let_def keeps_ref_def case_prod_beta)
qed

lemma keeps_ref_set: "keeps_ref w (snd (DataReference_set tm v w))"
  by (simp add: keeps_ref_def DataReference_set_def split: sum.splits)

lemma keeps_ref_update: "keeps_ref w (snd (DataReference_update tm v w))"
  using keeps_ref_set [of w tm v]
  by (simp add: keeps_ref_def DataReference_update_def split: sum.splits)

lemma keeps_ref_remove: "keeps_ref w (snd (DataReference_remove tm w))"
  using keeps_ref_set [of w tm JNull]
  by (simp add: keeps_ref_def DataReference_remove_def)

lemma keeps_ref_ours: "keeps_ref w (snd (DataReference_ours tm cb err pth nv ov w))"
proof -
  have a: "keeps_ref w (snd (EventStream_publish sid snap (call_callback c snap w)))" for sid snap c
    using keeps_ref_trans [OF keeps_ref_call keeps_ref_publish] .
  have b: "keeps_ref w (snd (EventStream_publish sid snap w))" for sid snap
    by (rule keeps_ref_publish)
  show ?thesis
    using a b
    by (auto simp: DataReference_ours_def Let_def keeps_ref_def case_prod_beta split: option.splits sum.splits)
qed

lemma keeps_ref_replay_children: "keeps_ref w (snd (replay_children sid cb val ks w))"
proof (induction ks arbitrary: w)
  case Nil
  then show ?case by (simp add: keeps_ref_refl)
next
  case (Cons k ks)
  show ?case
  proof (cases "get_prop val k")
    case (Inl e)
    then show ?thesis by (simp add: keeps_ref_refl)
  next
    case (Inr cv)
    let ?snap = "\<lparr>snap_path = path (DataReference_child (self w) k), snap_val = cv\<rparr>"
    let ?w1 = "snd (EventStream_publish sid ?snap w)"
    let ?w2 = "if is_function cb then call_callback cb ?snap ?w1 else ?w1"
    have "keeps_ref w ?w2"
      using keeps_ref_trans [OF keeps_ref_publish keeps_ref_call] keeps_ref_publish by auto
    from keeps_ref_trans [OF this Cons.IH] Inr show ?thesis
      by (simp add: Let_def case_prod_beta)
  qed
qed

lemma keeps_ref_run_then: "keeps_ref w (snd (run_then k snap w))"
proof (cases k)
  case (ReplayValue sid cb)
  then show ?thesis
    using keeps_ref_trans [OF keeps_ref_publish keeps_ref_call] keeps_ref_publish
    by (auto simp: Let_def case_prod_beta)
next
  case (ReplayChildAdded sid cb)
  then show ?thesis
    using keeps_ref_replay_children
    by (auto simp: Let_def keeps_ref_refl split: sum.splits)
qed

lemma keeps_ref_answer: "keeps_ref w (backend_resolve_get p tv w)"
  by (simp add: backend_resolve_get_def keeps_ref_def)

lemma keeps_ref_run_job: "keeps_ref w (snd (run_job tm j w))"
proof (cases j)
  case (GetReaction p tv)
  then show ?thesis
    by (auto simp: Let_def keeps_ref_def split: sum.splits)
next
  case (ThenReaction k snap)
  then show ?thesis by (simp add: keeps_ref_run_then)
qed

lemma keeps_ref_run_next_job: "keeps_ref w (snd (run_next_job tm w))"
proof (cases "jobs w")
  case Nil
  then show ?thesis by (simp add: run_next_job_def keeps_ref_refl)
next
  case (Cons j js)
  have "keeps_ref w (w\<lparr>jobs := js\<rparr>)"
    by (simp add: keeps_ref_def)
  from keeps_ref_trans [OF this keeps_ref_run_job] Cons show ?thesis
    by (simp add: run_next_job_def)
qed

lemma last_group_start_None: "last_group_start p = None \<Longrightarrow> CHR ''/'' \<notin> set p"
  by (induction p) (auto split: option.splits if_splits)

lemma last_group_start_Some:
  "last_group_start p = Some i
   \<Longrightarrow> i < length p \<and> (p ! i = CHR ''/'' \<or> p ! i = CHR ''['') \<and> CHR ''/'' \<notin> set (drop (Suc i) p)"
proof (induction p arbitrary: i)
  case Nil
  then show ?case by simp
next
  case (Cons c cs)
  show ?case
  proof (cases "last_group_start cs")
    case None
    with Cons.prems last_group_start_None [OF None] show ?thesis
      by (auto split: if_splits)
  next
    case (Some k)
    with Cons.prems Cons.IH [OF Some] show ?thesis by auto
  qed
qed

lemma after_last_slash_none: "CHR ''/'' \<notin> set p \<Longrightarrow> after_last_slash p = p"
proof -
  assume "CHR ''/'' \<notin> set p"
  then have "takeWhile (\<lambda>c. c \<noteq> CHR ''/'') (rev p) = rev p"
    by (intro takeWhile_eq_all_conv [THEN iffD2]) auto
  then show ?thesis
    unfolding after_last_slash_def by (simp only: rev_rev_ident)
qed

lemma after_last_slash_at:
  assumes "i < length p" "p ! i = CHR ''/''" "CHR ''/'' \<notin> set (drop (Suc i) p)"
  shows "after_last_slash p = drop (Suc i) p"
proof -
  have "p = take i p @ CHR ''/'' # drop (Suc i) p"
    using assms(1,2) id_take_nth_drop by metis
  then have e: "rev p = rev (drop (Suc i) p) @ CHR ''/'' # rev (take i p)"
    by (metis rev.simps(2) rev_append append.assoc append_Cons append_Nil)
  have "takeWhile (\<lambda>c. c \<noteq> CHR ''/'') (rev (drop (Suc i) p) @ CHR ''/'' # rev (take i p))
      = rev (drop (Suc i) p) @ takeWhile (\<lambda>c. c \<noteq> CHR ''/'') (CHR ''/'' # rev (take i p))"
    by (rule takeWhile_append2) (use assms(3) in auto)
  then have "takeWhile (\<lambda>c. c \<noteq> CHR ''/'') (rev (drop (Suc i) p) @ CHR ''/'' # rev (take i p))
      = rev (drop (Suc i) p)"
    by simp
  then show ?thesis
    unfolding after_last_slash_def by (simp only: e rev_rev_ident)
qed

lemma keyOf_plain: "\<not> ends_with_index p \<Longrightarrow> keyOf p = after_last_slash p"
proof (cases "last_group_start p")
  case None
  then show ?thesis
    using last_group_start_None [OF None] by (simp add: keyOf_def after_last_slash_none)
next
  case (Some i)
  assume "\<not> ends_with_index p"
  with Some last_group_start_Some [OF Some] have "p ! i = CHR ''/''"
    by (auto simp: ends_with_index_def)
  with Some last_group_start_Some [OF Some] after_last_slash_at [of i p] show ?thesis
    by (simp add: keyOf_def)
qed

text \<open>
  C10, amended. The constructor removes one separator at the start of its argument and one
  at the end of what follows (an absent path is the empty path): the path has no
  separator at either end whenever the argument has no two separators in a row. The key
  is the last key of the path, the empty string at the root, for every path whose last
  key is not a bracketed index. The parent is null exactly at the root, and is canonical
  when the path has no two separators in a row. \<open>child(p)\<close> is the Reference constructed from this path, a separator and \<open>p\<close> trimmed
  the same way: for canonical parts that is the two joined by one separator (the other
  part alone when one is empty), and it is canonical again when neither has two
  separators in a row. No operation of a Reference changes its \<open>db\<close>, path or key.
\<close>

theorem reference_path_and_key:
  "path (DataReference_ctor d p) = trim_slashes (case p of None \<Rightarrow> [] | Some s \<Rightarrow> s)
   \<and> (\<not> double_sep (case p of None \<Rightarrow> [] | Some s \<Rightarrow> s) \<longrightarrow>
        canonical (path (DataReference_ctor d p)) \<and> \<not> double_sep (path (DataReference_ctor d p)))
   \<and> (\<not> ends_with_index (path (DataReference_ctor d p)) \<longrightarrow>
        key (DataReference_ctor d p) = keyOf (path (DataReference_ctor d p)))
   \<and> (path (DataReference_ctor d p) = [] \<longrightarrow> key (DataReference_ctor d p) = [])
   \<and> (DataReference_parent r = None \<longleftrightarrow> path r = [])
   \<and> (\<not> double_sep (path r) \<longrightarrow>
        (\<forall>pr. DataReference_parent r = Some pr \<longrightarrow> canonical (path pr) \<and> \<not> double_sep (path pr)))
   \<and> path (DataReference_child r cp) = trim_slashes (path r @ ''/'' @ trim_slashes cp)
   \<and> (canonical (path r) \<and> canonical (trim_slashes cp) \<longrightarrow>
        path (DataReference_child r cp)
          = (if path r = [] then trim_slashes cp
             else if trim_slashes cp = [] then path r
             else path r @ ''/'' @ trim_slashes cp))
   \<and> (canonical (path r) \<and> \<not> double_sep (path r) \<and> \<not> double_sep cp \<longrightarrow>
        canonical (path (DataReference_child r cp)) \<and> \<not> double_sep (path (DataReference_child r cp)))
   \<and> keeps_ref w (snd (DataReference_on ev cb w))
   \<and> keeps_ref w (DataReference_off ev' cb w)
   \<and> keeps_ref w (snd (DataReference_once ev opts w))
   \<and> keeps_ref w (snd (DataReference_get opts w))
   \<and> keeps_ref w (snd (DataReference_set tm v w))
   \<and> keeps_ref w (snd (DataReference_update tm v w))
   \<and> keeps_ref w (snd (DataReference_remove tm w))
   \<and> keeps_ref w (snd (DataReference_ours tm reg err pth nv ov w))
   \<and> keeps_ref w (backend_resolve_get q tv w)
   \<and> keeps_ref w (snd (run_next_job tm w))"
proof -
  let ?r = "DataReference_ctor d p"
  let ?p = "case p of None \<Rightarrow> [] | Some s \<Rightarrow> s"
  have c1: "path ?r = trim_slashes ?p"
    by (simp add: ctor_fields)
  have c2: "\<not> double_sep ?p \<longrightarrow> canonical (path ?r) \<and> \<not> double_sep (path ?r)"
    using no_double_sep_clean_trim [of ?p] by (simp add: ctor_fields)
  have c3: "\<not> ends_with_index (path ?r) \<longrightarrow> key ?r = keyOf (path ?r)"
  proof (cases "path ?r = []")
    case True
    then show ?thesis by (simp add: ctor_fields keyOf_def)
  next
    case False
    then have "key ?r = after_last_slash (path ?r)" by (simp add: ctor_fields)
    then show ?thesis using keyOf_plain [of "path ?r"] by simp
  qed
  have c4: "path ?r = [] \<longrightarrow> key ?r = []"
    by (simp add: ctor_fields)
  have c5: "DataReference_parent r = None \<longleftrightarrow> path r = []"
    by (rule parent_None_iff)
  have c6: "\<not> double_sep (path r) \<longrightarrow>
        (\<forall>pr. DataReference_parent r = Some pr \<longrightarrow> canonical (path pr) \<and> \<not> double_sep (path pr))"
    using parent_clean [of "path r"]
    by (auto simp: DataReference_parent_def ctor_fields split: option.splits)
  have c7: "path (DataReference_child r cp) = trim_slashes (path r @ ''/'' @ trim_slashes cp)"
    by (simp add: DataReference_child_def ctor_fields)
  have c8: "canonical (path r) \<and> canonical (trim_slashes cp) \<longrightarrow>
        path (DataReference_child r cp)
          = (if path r = [] then trim_slashes cp
             else if trim_slashes cp = [] then path r
             else path r @ ''/'' @ trim_slashes cp)"
    using child_path_clean [of "path r" "trim_slashes cp"] c7 by simp
  have c9: "canonical (path r) \<and> \<not> double_sep (path r) \<and> \<not> double_sep cp \<longrightarrow>
        canonical (path (DataReference_child r cp)) \<and> \<not> double_sep (path (DataReference_child r cp))"
    using clean_join [of "path r" "trim_slashes cp"] no_double_sep_clean_trim [of cp] c7 by simp
  show ?thesis
    by (intro conjI c1 c2 c3 c4 c5 c6 c7 c8 c9 keeps_ref_on keeps_ref_off keeps_ref_once
        keeps_ref_get keeps_ref_set keeps_ref_update keeps_ref_remove keeps_ref_ours
        keeps_ref_answer keeps_ref_run_next_job)
qed

lemma trim_examples:
  "trim_slashes ''/users/ann/'' = ''users/ann''"
  "trim_slashes ''//a'' = ''/a''"
  "trim_slashes ''users'' = ''users''"
  "trim_slashes ''/ann/'' = ''ann''"
  "trim_slashes ''users/ann'' = ''users/ann''"
  "trim_slashes ''users//ann/'' = ''users//ann''"
  by (simp_all add: trim_slashes_def)

theorem reference_path_and_key_witness:
  "path (DataReference_ctor 0 (Some ''/users/ann/'')) = ''users/ann''
   \<and> canonical (path (DataReference_ctor 0 (Some ''/users/ann/'')))
   \<and> \<not> ends_with_index (path (DataReference_ctor 0 (Some ''/users/ann/'')))
   \<and> key (DataReference_ctor 0 (Some ''/users/ann/'')) = keyOf (path (DataReference_ctor 0 (Some ''/users/ann/'')))
   \<and> keyOf ''users/ann'' = ''ann''
   \<and> DataReference_parent (DataReference_ctor 0 None) = None
   \<and> path (DataReference_child (DataReference_ctor 0 (Some ''users'')) ''/ann/'') = ''users/ann''
   \<and> canonical (path (DataReference_child (DataReference_ctor 0 (Some ''users'')) ''/ann/''))
   \<and> canonical (path (DataReference_ctor 0 (Some ''users'')))
   \<and> DataReference_parent (DataReference_ctor 0 (Some ''users/ann''))
        = Some (DataReference_ctor 0 (Some ''users''))
   \<and> keeps_ref (world_at ''a'') (snd (DataReference_on ''value'' CbUndefined (world_at ''a'')))"
proof -
  have k: "\<not> ends_with_index (path (DataReference_ctor 0 (Some ''/users/ann/'')))"
    "keyOf ''users/ann'' = ''ann''"
    by (simp_all add: ctor_fields trim_examples ends_with_index_def keyOf_def)
  have pa: "DataReference_parent (DataReference_ctor 0 (Some ''users/ann''))
      = Some (DataReference_ctor 0 (Some ''users''))"
    by (simp add: DataReference_parent_def getPathInfo_parent_def ctor_fields trim_examples)
  have nd: "\<not> double_sep (path (DataReference_ctor 0 (Some ''users/ann'')))"
    by (simp add: ctor_fields trim_examples)
  have pc: "canonical (path (DataReference_ctor 0 (Some ''users'')))"
    using reference_path_and_key [where w = "world_at ''a''" and ev = "''value''" and cb = CbUndefined and ev' = None
        and opts = JUndefined and tm = tm_plain and v = JNull
        and reg = "\<lparr>subscr = 0, original = CbUndefined, ours = 0, on_event = ''value''\<rparr>"
        and err = None and pth = "''a''" and nv = JNull and ov = JNull and q = 0 and tv = JNull
        and d = 0 and p = None and cp = "[]" and r = "DataReference_ctor 0 (Some ''users/ann'')"] nd pa
    by blast
  have nd2: "\<not> double_sep (case Some ''/users/ann/'' of None \<Rightarrow> [] | Some s \<Rightarrow> s)"
    "\<not> double_sep (path (DataReference_ctor 0 (Some ''users'')))" "\<not> double_sep ''/ann/''"
    by (simp_all add: ctor_fields trim_examples)
  note t = reference_path_and_key [where w = "world_at ''a''" and ev = "''value''" and cb = CbUndefined and ev' = None
        and opts = JUndefined and tm = tm_plain and v = JNull
        and reg = "\<lparr>subscr = 0, original = CbUndefined, ours = 0, on_event = ''value''\<rparr>"
        and err = None and pth = "''a''" and nv = JNull and ov = JNull and q = 0 and tv = JNull
        and d = 0 and p = "Some ''/users/ann/''"
        and r = "DataReference_ctor 0 (Some ''users'')" and cp = "''/ann/''"]
  have c1: "canonical (path (DataReference_ctor 0 (Some ''/users/ann/'')))"
    using t nd2 by blast
  have c2: "canonical (path (DataReference_child (DataReference_ctor 0 (Some ''users'')) ''/ann/''))"
    using t nd2 pc by blast
  have c3: "keeps_ref (world_at ''a'') (snd (DataReference_on ''value'' CbUndefined (world_at ''a'')))"
    using t by blast
  have c6: "key (DataReference_ctor 0 (Some ''/users/ann/''))
      = keyOf (path (DataReference_ctor 0 (Some ''/users/ann/'')))"
    using t k(1) by blast
  have c4: "DataReference_parent (DataReference_ctor 0 None) = None"
    using reference_path_and_key [where w = "world_at ''a''" and ev = "''value''" and cb = CbUndefined and ev' = None
        and opts = JUndefined and tm = tm_plain and v = JNull
        and reg = "\<lparr>subscr = 0, original = CbUndefined, ours = 0, on_event = ''value''\<rparr>"
        and err = None and pth = "''a''" and nv = JNull and ov = JNull and q = 0 and tv = JNull
        and d = 0 and p = None and cp = "[]" and r = "DataReference_ctor 0 None"]
    by (simp add: ctor_fields trim_a)
  have c5: "path (DataReference_ctor 0 (Some ''/users/ann/'')) = ''users/ann''"
    "path (DataReference_child (DataReference_ctor 0 (Some ''users'')) ''/ann/'') = ''users/ann''"
    by (simp_all add: ctor_fields DataReference_child_def trim_examples)
  show ?thesis
    by (intro conjI c5(1) c1 k c6 c4 c5(2) c2 pc pa c3)
qed

text \<open>The claim as stated fails: a second separator at either end stays; and the key of
  the Reference at \<open>users[0]\<close> is the whole path, where the last key of that path is the
  index \<open>[0]\<close> and the parent is the Reference at \<open>users\<close>.\<close>

theorem reference_not_canonical_and_key_not_last:
  "path (DataReference_ctor 0 (Some ''//a'')) = ''/a''
   \<and> \<not> canonical (path (DataReference_ctor 0 (Some ''//a'')))
   \<and> path (DataReference_child (DataReference_ctor 0 (Some ''a'')) ''///'') = ''a/''
   \<and> \<not> canonical (path (DataReference_child (DataReference_ctor 0 (Some ''a'')) ''///''))
   \<and> path (DataReference_ctor 0 (Some ''users[0]'')) = ''users[0]''
   \<and> key (DataReference_ctor 0 (Some ''users[0]'')) = ''users[0]''
   \<and> keyOf ''users[0]'' = ''[0]''
   \<and> DataReference_parent (DataReference_ctor 0 (Some ''users[0]''))
        = Some (DataReference_ctor 0 (Some ''users''))"
  by (simp add: ctor_fields DataReference_child_def trim_slashes_def canonical_def keyOf_def
      after_last_slash_def DataReference_parent_def getPathInfo_parent_def)

section \<open>The immediate replay of on\<close>

lemma streams_invoked_swap:
  "w\<lparr>streams := S, invoked := I\<rparr> = w\<lparr>invoked := I, streams := S\<rparr>"
  by (cases w) simp

lemma delivered_Nil: "delivered n sid [] w = w"
  by (simp add: delivered_def)

lemma delivered_append:
  "sid < length (streams w) \<Longrightarrow>
   delivered n sid ys (delivered n sid xs w) = delivered n sid (xs @ ys) w"
  by (simp add: delivered_def)

lemma delivered_fields:
  "self (delivered n sid snaps w) = self w"
  "api (delivered n sid snaps w) = api w"
  "thens (delivered n sid snaps w) = thens w"
  "pending_gets (delivered n sid snaps w) = pending_gets w"
  "promises (delivered n sid snaps w) = promises w"
  "debug_log (delivered n sid snaps w) = debug_log w"
  "jobs (delivered n sid snaps w) = jobs w"
  "length (streams (delivered n sid snaps w)) = length (streams w)"
  "invoked (delivered n sid snaps w) = invoked w @ map (Pair n) snaps"
  "sid < length (streams w) \<Longrightarrow>
     published (streams (delivered n sid snaps w) ! sid) = published (streams w ! sid) @ snaps"
  by (simp_all add: delivered_def)

lemma ours_user_effect:
  assumes "original reg = CbUser n" "subscr reg < length (streams w)"
    "on_event reg \<noteq> ''child_removed''" "tm_deserialize tm (fst ev) (snd ev) = Inr v"
  shows "snd (DataReference_ours tm reg None (fst ev) (snd ev) (snd ev) w)
     = delivered n (subscr reg) [live_snapshot tm (db (self w)) ev] w"
  using assms
  by (simp add: DataReference_ours_def Let_def EventStream_publish_def live_snapshot_def
      delivered_def)

lemma live_run:
  assumes "original reg = CbUser n" "on_event reg \<noteq> ''child_removed''"
  shows "subscr reg < length (streams w)
    \<Longrightarrow> \<forall>ev \<in> set evs. \<not> isl (tm_deserialize tm (fst ev) (snd ev))
    \<Longrightarrow> backend_steps tm (map (deliver_live reg) evs @ rest) w
     = backend_steps tm rest
         (delivered n (subscr reg) (map (live_snapshot tm (db (self w))) evs) w)"
proof (induction evs arbitrary: w)
  case Nil
  then show ?case by (simp add: delivered_Nil)
next
  case (Cons ev evs)
  from Cons.prems obtain v where v: "tm_deserialize tm (fst ev) (snd ev) = Inr v"
    by (cases "tm_deserialize tm (fst ev) (snd ev)") auto
  let ?w = "delivered n (subscr reg) [live_snapshot tm (db (self w)) ev] w"
  have e: "snd (DataReference_ours tm reg None (fst ev) (snd ev) (snd ev) w) = ?w"
    using ours_user_effect [OF assms(1) Cons.prems(1) assms(2) v] .
  have "backend_steps tm (map (deliver_live reg) (ev # evs) @ rest) w
      = backend_steps tm (map (deliver_live reg) evs @ rest) ?w"
    by (simp add: deliver_live_def e)
  also have "\<dots> = backend_steps tm rest
        (delivered n (subscr reg) (map (live_snapshot tm (db (self ?w))) evs) ?w)"
    using Cons.prems by (intro Cons.IH) (auto simp: delivered_fields)
  finally show ?case
    using Cons.prems(1) by (simp add: delivered_append delivered_fields)
qed

lemma replay_children_user:
  "sid < length (streams w) \<Longrightarrow> \<forall>k \<in> set ks. \<not> isl (get_prop val k)
   \<Longrightarrow> replay_children sid (CbUser n) val ks w
     = (Inr (), delivered n sid
          (map (\<lambda>k. \<lparr>snap_path = path (DataReference_child (self w) k),
                     snap_val = (case get_prop val k of Inr cv \<Rightarrow> cv | Inl e \<Rightarrow> JUndefined)\<rparr>) ks) w)"
proof (induction ks arbitrary: w)
  case Nil
  then show ?case by (simp add: delivered_Nil)
next
  case (Cons k ks)
  from Cons.prems obtain cv where cv: "get_prop val k = Inr cv"
    by (cases "get_prop val k") auto
  let ?s = "\<lparr>snap_path = path (DataReference_child (self w) k), snap_val = cv\<rparr>"
  let ?w = "delivered n sid [?s] w"
  have step: "replay_children sid (CbUser n) val (k # ks) w = replay_children sid (CbUser n) val ks ?w"
    using Cons.prems(1) cv
    by (simp add: EventStream_publish_def Let_def delivered_def streams_invoked_swap)
  have "replay_children sid (CbUser n) val ks ?w
     = (Inr (), delivered n sid
          (map (\<lambda>k. \<lparr>snap_path = path (DataReference_child (self ?w) k),
                     snap_val = (case get_prop val k of Inr cv \<Rightarrow> cv | Inl e \<Rightarrow> JUndefined)\<rparr>) ks) ?w)"
    using Cons.prems by (intro Cons.IH) (auto simp: delivered_fields)
  with step show ?case
    using Cons.prems(1) cv by (simp add: delivered_append delivered_fields)
qed

lemma get_prop_defined: "v \<noteq> JNull \<Longrightarrow> v \<noteq> JUndefined \<Longrightarrow> \<not> isl (get_prop v k)"
  by (cases v) auto

lemma Object_keys_defined: "v \<noteq> JNull \<Longrightarrow> v \<noteq> JUndefined \<Longrightarrow> \<not> isl (Object_keys v)"
  by (cases v) auto

lemma run_then_child_added_user:
  assumes "sid < length (streams w)" "snap_val snap \<noteq> JNull"
  shows "run_then (ReplayChildAdded sid (CbUser n)) snap w
     = (Inr (), delivered n sid (child_snapshots (self w) (snap_val snap)) w)"
proof (cases "typeof (snap_val snap) \<noteq> ''object''")
  case True
  then show ?thesis by (simp add: child_snapshots_def delivered_Nil)
next
  case False
  then have nu: "snap_val snap \<noteq> JUndefined" by auto
  from Object_keys_defined [OF assms(2) nu] obtain ks where ks: "Object_keys (snap_val snap) = Inr ks"
    by (cases "Object_keys (snap_val snap)") auto
  have "\<forall>k \<in> set ks. \<not> isl (get_prop (snap_val snap) k)"
    using get_prop_defined [OF assms(2) nu] by blast
  from replay_children_user [OF assms(1) this] False ks show ?thesis
    by (simp add: child_snapshots_def)
qed

lemma run_then_value_user:
  assumes "sid < length (streams w)"
  shows "run_then (ReplayValue sid (CbUser n)) snap w = (Inr (), delivered n sid [snap] w)"
  using assms by (simp add: EventStream_publish_def delivered_def streams_invoked_swap)

lemma filter_fresh:
  "p \<notin> fst ` set ts \<Longrightarrow> filter (\<lambda>qk. fst qk = p) ts = []"
  by (induction ts) auto

lemma on_with_replay:
  assumes "ev = ''value'' \<and> K = ReplayValue \<or> ev = ''child_added'' \<and> K = ReplayChildAdded"
  shows "DataReference_on ev (CbUser n) w
    = (length (streams w),
       w\<lparr>self := (self w)\<lparr>callbacks := callbacks (self w) @
            [\<lparr>subscr = length (streams w), original = CbUser n, ours = next_handler w, on_event = ev\<rparr>]\<rparr>,
         streams := streams w @ [\<lparr>published = [], stopped = [], keep_alive = False\<rparr>],
         next_handler := Suc (next_handler w),
         api := api w @ [ApiSubscribe (path (self w)) ev (next_handler w),
                         ApiGet (path (self w)) JUndefined],
         promises := promises w @ [Pending],
         pending_gets := pending_gets w @ [length (promises w)],
         thens := thens w @ [(length (promises w), K (length (streams w)) (CbUser n))]\<rparr>)"
  using assms by (auto simp: DataReference_on_def DataReference_get_def Let_def)

lemma child_snapshots_path:
  "path r' = path r \<Longrightarrow> db r' = db r \<Longrightarrow> child_snapshots r' V = child_snapshots r V"
  by (simp add: child_snapshots_def DataReference_child_def split: sum.splits)

lemma replay_trace:
  fixes w :: "'t world"
  assumes K: "ev = ''value'' \<and> K = ReplayValue \<or> ev = ''child_added'' \<and> K = ReplayChildAdded"
    and fresh: "length (promises w) \<notin> fst ` set (thens w)"
    and idle: "jobs w = []"
    and v: "tm_deserialize tm (path (self w)) tv = Inr V"
    and b1: "\<forall>e \<in> set before. \<not> isl (tm_deserialize tm (fst e) (snd e))"
    and b2: "\<forall>e \<in> set mida. \<not> isl (tm_deserialize tm (fst e) (snd e))"
    and b3: "\<forall>e \<in> set midb. \<not> isl (tm_deserialize tm (fst e) (snd e))"
    and as: "\<forall>e \<in> set after. \<not> isl (tm_deserialize tm (fst e) (snd e))"
    and r: "\<forall>w' :: 't world. path (self w') = path (self w) \<and> db (self w') = db (self w)
        \<and> length (streams w) < length (streams w')
        \<longrightarrow> run_then (K (length (streams w)) (CbUser n)) \<lparr>snap_path = path (self w), snap_val = V\<rparr> w'
           = (Inr (), delivered n (length (streams w)) R w')"
  shows "(let reg = \<lparr>subscr = length (streams w), original = CbUser n, ours = next_handler w,
                     on_event = ev\<rparr>;
              w2 = backend_steps tm
                     (map (deliver_live reg) before @ Answer (length (promises w)) tv
                        # map (deliver_live reg) mida @ Reaction
                        # map (deliver_live reg) midb @ Reaction
                        # map (deliver_live reg) after)
                     (snd (DataReference_on ev (CbUser n) w));
              seen = map (live_snapshot tm (db (self w))) (before @ mida @ midb) @ R
                       @ map (live_snapshot tm (db (self w))) after
          in invoked w2 = invoked w @ map (Pair n) seen
             \<and> published (streams w2 ! length (streams w)) = seen
             \<and> callbacks (self w2) = callbacks (self w) @ [reg]
             \<and> api w2 = api w @ [ApiSubscribe (path (self w)) ev (next_handler w),
                                  ApiGet (path (self w)) JUndefined])"
proof -
  let ?sid = "length (streams w)"
  let ?p = "length (promises w)"
  let ?reg = "\<lparr>subscr = ?sid, original = CbUser n, ours = next_handler w, on_event = ev\<rparr>"
  let ?live = "live_snapshot tm (db (self w))"
  let ?snap = "\<lparr>snap_path = path (self w), snap_val = V\<rparr>"
  let ?k = "K ?sid (CbUser n)"
  let ?D = "map (deliver_live ?reg)"
  define w1 where "w1 = snd (DataReference_on ev (CbUser n) w)"
  have w1: "w1 = w\<lparr>self := (self w)\<lparr>callbacks := callbacks (self w) @ [?reg]\<rparr>,
         streams := streams w @ [\<lparr>published = [], stopped = [], keep_alive = False\<rparr>],
         next_handler := Suc (next_handler w),
         api := api w @ [ApiSubscribe (path (self w)) ev (next_handler w),
                         ApiGet (path (self w)) JUndefined],
         promises := promises w @ [Pending],
         pending_gets := pending_gets w @ [?p],
         thens := thens w @ [(?p, ?k)]\<rparr>"
    unfolding w1_def by (simp add: on_with_replay [OF K])
  have f1: "self w1 = (self w)\<lparr>callbacks := callbacks (self w) @ [?reg]\<rparr>"
    "streams w1 = streams w @ [\<lparr>published = [], stopped = [], keep_alive = False\<rparr>]"
    "api w1 = api w @ [ApiSubscribe (path (self w)) ev (next_handler w), ApiGet (path (self w)) JUndefined]"
    "pending_gets w1 = pending_gets w @ [?p]"
    "thens w1 = thens w @ [(?p, ?k)]"
    "invoked w1 = invoked w" "jobs w1 = []"
    by (simp_all add: w1 idle)
  have evn: "on_event ?reg \<noteq> ''child_removed''"
    using K by auto
  have org: "original ?reg = CbUser n"
    by simp
  have sid1: "subscr ?reg < length (streams w1)"
    by (simp add: f1)
  \<comment> \<open>live events before the answer\<close>
  define wa where "wa = delivered n ?sid (map ?live before) w1"
  have run1: "backend_steps tm (?D before @ rest) w1 = backend_steps tm rest wa" for rest
    using live_run [where reg = ?reg and n = n and w = w1 and evs = before and tm = tm and rest = rest,
        OF org evn sid1 b1]
    by (simp add: wa_def f1)
  have fa: "self wa = self w1" "pending_gets wa = pending_gets w1" "thens wa = thens w1"
    "length (streams wa) = length (streams w1)" "api wa = api w1" "jobs wa = []"
    "invoked wa = invoked w @ map (Pair n) (map ?live before)"
    "published (streams wa ! ?sid) = map ?live before"
    by (simp_all add: wa_def delivered_fields f1)
  \<comment> \<open>the answer\<close>
  define wb where "wb = backend_resolve_get ?p tv wa"
  have fb: "self wb = self w1" "thens wb = thens w1" "streams wb = streams wa" "api wb = api w1"
    "jobs wb = [GetReaction ?p tv]" "invoked wb = invoked wa"
    by (simp_all add: wb_def backend_resolve_get_def fa f1)
  have sidb: "subscr ?reg < length (streams wb)"
    by (simp add: fb fa f1)
  \<comment> \<open>live events between the answer and the reaction of \<open>get\<close>\<close>
  define wc where "wc = delivered n ?sid (map ?live mida) wb"
  have run2: "backend_steps tm (?D mida @ rest) wb = backend_steps tm rest wc" for rest
    using live_run [where reg = ?reg and n = n and w = wb and evs = mida and tm = tm and rest = rest,
        OF org evn sidb b2]
    by (simp add: wc_def fb f1)
  have fc: "self wc = self w1" "thens wc = thens w1" "length (streams wc) = length (streams w1)"
    "api wc = api w1" "jobs wc = [GetReaction ?p tv]"
    "invoked wc = invoked w @ map (Pair n) (map ?live (before @ mida))"
    "published (streams wc ! ?sid) = map ?live (before @ mida)"
    using sidb by (simp_all add: wc_def delivered_fields fb fa f1)
  \<comment> \<open>the reaction of \<open>get\<close>\<close>
  define wd where "wd = snd (run_next_job tm wc)"
  have flt: "filter (\<lambda>qk. fst qk = ?p) (thens wc) = [(?p, ?k)]"
    using fresh by (simp add: fc f1 filter_fresh)
  have fd: "self wd = self w1" "streams wd = streams wc" "api wd = api w1"
    "jobs wd = [ThenReaction ?k ?snap]" "invoked wd = invoked wc"
    using v flt by (simp_all add: wd_def run_next_job_def fc f1 Let_def)
  have sidd: "subscr ?reg < length (streams wd)"
    by (simp add: fd fc f1)
  \<comment> \<open>live events between the two reactions\<close>
  define we where "we = delivered n ?sid (map ?live midb) wd"
  have run3: "backend_steps tm (?D midb @ rest) wd = backend_steps tm rest we" for rest
    using live_run [where reg = ?reg and n = n and w = wd and evs = midb and tm = tm and rest = rest,
        OF org evn sidd b3]
    by (simp add: we_def fd f1)
  have fe: "self we = self w1" "length (streams we) = length (streams w1)"
    "api we = api w1" "jobs we = [ThenReaction ?k ?snap]"
    "invoked we = invoked w @ map (Pair n) (map ?live (before @ mida @ midb))"
    "published (streams we ! ?sid) = map ?live (before @ mida @ midb)"
    using sidd by (simp_all add: we_def delivered_fields fd fc f1)
  \<comment> \<open>the replay\<close>
  define wf where "wf = snd (run_next_job tm we)"
  have rf: "run_then ?k ?snap (we\<lparr>jobs := []\<rparr>) = (Inr (), delivered n ?sid R (we\<lparr>jobs := []\<rparr>))"
    using r [rule_format, of "we\<lparr>jobs := []\<rparr>"] by (simp add: fe f1)
  have wf: "wf = delivered n ?sid R (we\<lparr>jobs := []\<rparr>)"
    by (simp add: wf_def run_next_job_def fe rf)
  have ff: "self wf = self w1" "length (streams wf) = length (streams w1)" "api wf = api w1"
    "invoked wf = invoked w @ map (Pair n) (map ?live (before @ mida @ midb) @ R)"
    "published (streams wf ! ?sid) = map ?live (before @ mida @ midb) @ R"
    by (simp_all add: wf delivered_fields fe f1)
  have sidf: "subscr ?reg < length (streams wf)"
    by (simp add: ff f1)
  \<comment> \<open>live events after the replay\<close>
  define wg where "wg = delivered n ?sid (map ?live after) wf"
  have run4: "backend_steps tm (?D after) wf = wg"
    using live_run [where reg = ?reg and n = n and w = wf and evs = after and tm = tm and rest = "[]",
        OF org evn sidf as]
    by (simp add: wg_def ff f1)
  have run: "backend_steps tm
         (?D before @ Answer ?p tv # ?D mida @ Reaction # ?D midb @ Reaction # ?D after) w1 = wg"
    unfolding run1
    by (simp add: wb_def [symmetric] run2 wd_def [symmetric] run3 wf_def [symmetric] run4)
  have "invoked wg = invoked w @ map (Pair n) (map ?live (before @ mida @ midb) @ R @ map ?live after)"
    "published (streams wg ! ?sid) = map ?live (before @ mida @ midb) @ R @ map ?live after"
    "callbacks (self wg) = callbacks (self w) @ [?reg]"
    "api wg = api w @ [ApiSubscribe (path (self w)) ev (next_handler w), ApiGet (path (self w)) JUndefined]"
    using sidf by (simp_all add: wg_def delivered_fields ff f1)
  then show ?thesis
    unfolding Let_def w1_def [symmetric] run by simp
qed

lemma world_at_fields:
  "api (world_at p) = []" "debug_log (world_at p) = []" "streams (world_at p) = []"
  "promises (world_at p) = []" "pending_gets (world_at p) = []" "thens (world_at p) = []"
  "jobs (world_at p) = []"
  "invoked (world_at p) = []" "next_handler (world_at p) = 0"
  "db (self (world_at p)) = 0" "path (self (world_at p)) = trim_slashes p"
  "callbacks (self (world_at p)) = []"
  by (simp_all add: world_at_def ctor_fields)

text \<open>
  C5, amended. \<open>on("value", cb)\<close> with a function \<open>cb\<close> registers the backend subscription
  and then issues the read, in this order, and nothing else. The replay is the second of
  two promise reactions chained on the backend's answer: the closure of \<open>get\<close> makes the
  snapshot, the closure of \<open>on\<close> delivers it. When that closure runs, exactly one snapshot
  of this Reference with the value the backend answered is published on the returned
  stream and passed to \<open>cb\<close>. Live events the backend delivers to the handler before the
  closure runs (before its answer, between the answer and the first reaction, between
  the two reactions) come before that snapshot, those it delivers afterwards come after
  it: what \<open>cb\<close> and the stream have seen is the live events before, the one replayed
  snapshot, the live events after. The registration stays and no further backend call is
  issued.
\<close>

theorem value_replay_between_live_events:
  fixes w :: "'t world"
  assumes fresh: "length (promises w) \<notin> fst ` set (thens w)"
    and idle: "jobs w = []"
    and v: "tm_deserialize tm (path (self w)) tv = Inr V"
    and b1: "\<forall>e \<in> set before. \<not> isl (tm_deserialize tm (fst e) (snd e))"
    and b2: "\<forall>e \<in> set mida. \<not> isl (tm_deserialize tm (fst e) (snd e))"
    and b3: "\<forall>e \<in> set midb. \<not> isl (tm_deserialize tm (fst e) (snd e))"
    and as: "\<forall>e \<in> set after. \<not> isl (tm_deserialize tm (fst e) (snd e))"
  shows "(let reg = \<lparr>subscr = length (streams w), original = CbUser n, ours = next_handler w,
                     on_event = ''value''\<rparr>;
              w1 = snd (DataReference_on ''value'' (CbUser n) w);
              w2 = backend_steps tm
                     (map (deliver_live reg) before @ Answer (length (promises w)) tv
                        # map (deliver_live reg) mida @ Reaction
                        # map (deliver_live reg) midb @ Reaction
                        # map (deliver_live reg) after) w1;
              seen = map (live_snapshot tm (db (self w))) (before @ mida @ midb)
                       @ [\<lparr>snap_path = path (self w), snap_val = V\<rparr>]
                       @ map (live_snapshot tm (db (self w))) after
          in fst (DataReference_on ''value'' (CbUser n) w) = length (streams w)
             \<and> api w1 = api w @ [ApiSubscribe (path (self w)) ''value'' (next_handler w),
                                  ApiGet (path (self w)) JUndefined]
             \<and> invoked w2 = invoked w @ map (Pair n) seen
             \<and> published (streams w2 ! length (streams w)) = seen
             \<and> callbacks (self w2) = callbacks (self w) @ [reg]
             \<and> api w2 = api w1)"
proof -
  have r: "\<forall>w' :: 't world. path (self w') = path (self w) \<and> db (self w') = db (self w)
        \<and> length (streams w) < length (streams w')
     \<longrightarrow> run_then (ReplayValue (length (streams w)) (CbUser n))
             \<lparr>snap_path = path (self w), snap_val = V\<rparr> w'
           = (Inr (), delivered n (length (streams w)) [\<lparr>snap_path = path (self w), snap_val = V\<rparr>] w')"
    using run_then_value_user by blast
  have K: "''value'' = ''value'' \<and> ReplayValue = ReplayValue
      \<or> ''value'' = ''child_added'' \<and> ReplayValue = ReplayChildAdded"
    by simp
  have o: "fst (DataReference_on ''value'' (CbUser n) w) = length (streams w)"
    "api (snd (DataReference_on ''value'' (CbUser n) w))
       = api w @ [ApiSubscribe (path (self w)) ''value'' (next_handler w), ApiGet (path (self w)) JUndefined]"
    by (simp_all add: on_with_replay [where K = ReplayValue])
  note t = replay_trace [where ev = "''value''" and K = ReplayValue and w = w and tm = tm and tv = tv
        and V = V and before = before and mida = mida and midb = midb and after = after and n = n
        and R = "[\<lparr>snap_path = path (self w), snap_val = V\<rparr>]", OF K fresh idle v b1 b2 b3 as r,
        unfolded Let_def]
  note t1 = t [THEN conjunct1]
  note t2 = t [THEN conjunct2, THEN conjunct1]
  note t3 = t [THEN conjunct2, THEN conjunct2, THEN conjunct1]
  note t4 = t [THEN conjunct2, THEN conjunct2, THEN conjunct2]
  have t5: "api (backend_steps tm
         (map (deliver_live \<lparr>subscr = length (streams w), original = CbUser n,
                 ours = next_handler w, on_event = ''value''\<rparr>) before
            @ Answer (length (promises w)) tv
              # map (deliver_live \<lparr>subscr = length (streams w), original = CbUser n,
                 ours = next_handler w, on_event = ''value''\<rparr>) mida
            @ Reaction
              # map (deliver_live \<lparr>subscr = length (streams w), original = CbUser n,
                 ours = next_handler w, on_event = ''value''\<rparr>) midb
            @ Reaction
              # map (deliver_live \<lparr>subscr = length (streams w), original = CbUser n,
                 ours = next_handler w, on_event = ''value''\<rparr>) after)
         (snd (DataReference_on ''value'' (CbUser n) w)))
       = api (snd (DataReference_on ''value'' (CbUser n) w))"
    by (simp only: t4 o)
  show ?thesis
    unfolding Let_def by (intro conjI o t1 t2 t3 t5)
qed

theorem value_replay_between_live_events_witness:
  "length (promises (world_at ''a'')) \<notin> fst ` set (thens (world_at ''a''))
   \<and> jobs (world_at ''a'') = []
   \<and> tm_deserialize tm_plain (path (self (world_at ''a''))) node_ab = Inr node_ab
   \<and> api (snd (DataReference_on ''value'' (CbUser 7) (world_at ''a'')))
        = [ApiSubscribe ''a'' ''value'' 0, ApiGet ''a'' JUndefined]
   \<and> invoked (backend_steps tm_plain
        [Deliver (reg_on ''value'') None ''a'' (JNumber 4) (JNumber 4), Answer 0 node_ab, Reaction,
         Reaction, Deliver (reg_on ''value'') None ''a'' (JNumber 5) (JNumber 5)]
        (snd (DataReference_on ''value'' (CbUser 7) (world_at ''a''))))
      = [(7, \<lparr>snap_path = ''a'', snap_val = JNumber 4\<rparr>),
         (7, \<lparr>snap_path = ''a'', snap_val = node_ab\<rparr>),
         (7, \<lparr>snap_path = ''a'', snap_val = JNumber 5\<rparr>)]
   \<and> published (streams (backend_steps tm_plain
        [Deliver (reg_on ''value'') None ''a'' (JNumber 4) (JNumber 4), Answer 0 node_ab, Reaction,
         Reaction, Deliver (reg_on ''value'') None ''a'' (JNumber 5) (JNumber 5)]
        (snd (DataReference_on ''value'' (CbUser 7) (world_at ''a'')))) ! 0)
      = [\<lparr>snap_path = ''a'', snap_val = JNumber 4\<rparr>, \<lparr>snap_path = ''a'', snap_val = node_ab\<rparr>,
         \<lparr>snap_path = ''a'', snap_val = JNumber 5\<rparr>]"
proof -
  have h1: "length (promises (world_at ''a'')) \<notin> fst ` set (thens (world_at ''a''))"
    by (simp add: world_at_fields)
  have h0: "jobs (world_at ''a'') = []"
    by (simp add: world_at_fields)
  have h2: "tm_deserialize tm_plain (path (self (world_at ''a''))) node_ab = Inr node_ab"
    by (simp add: tm_plain_def)
  have h3: "\<forall>e \<in> set []. \<not> isl (tm_deserialize tm_plain (fst e) (snd e))"
    by simp
  have h4: "\<forall>e \<in> set [(''a'', JNumber 5)]. \<not> isl (tm_deserialize tm_plain (fst e) (snd e))"
    "\<forall>e \<in> set [(''a'', JNumber 4)]. \<not> isl (tm_deserialize tm_plain (fst e) (snd e))"
    by (simp_all add: tm_plain_def)
  note t = value_replay_between_live_events [where w = "world_at ''a''" and tm = tm_plain
      and tv = node_ab and V = node_ab and before = "[(''a'', JNumber 4)]" and mida = "[]"
      and midb = "[]" and after = "[(''a'', JNumber 5)]" and n = 7,
      OF h1 h0 h2 h4(2) h3 h3 h4(1), unfolded Let_def]
  show ?thesis
    using t h1 h0 h2
    by (simp add: world_at_fields trim_a deliver_live_def reg_on_def live_snapshot_def tm_plain_def
        ctor_fields)
qed

text \<open>The claim as stated fails: a live event delivered between the registration and the
  answer of the read reaches the callback and the stream before the immediate snapshot;
  and so does a live event the backend delivers after it has answered the read, before
  the reactions to the answer have run.\<close>

theorem value_replay_after_live_event:
  "invoked (backend_steps tm_plain
        [Deliver (reg_on ''value'') None ''a'' (JNumber 5) (JNumber 5), Answer 0 node_ab,
         Reaction, Reaction]
        (snd (DataReference_on ''value'' (CbUser 7) (world_at ''a''))))
      = [(7, \<lparr>snap_path = ''a'', snap_val = JNumber 5\<rparr>),
         (7, \<lparr>snap_path = ''a'', snap_val = node_ab\<rparr>)]
   \<and> published (streams (backend_steps tm_plain
        [Deliver (reg_on ''value'') None ''a'' (JNumber 5) (JNumber 5), Answer 0 node_ab,
         Reaction, Reaction]
        (snd (DataReference_on ''value'' (CbUser 7) (world_at ''a'')))) ! 0)
      = [\<lparr>snap_path = ''a'', snap_val = JNumber 5\<rparr>, \<lparr>snap_path = ''a'', snap_val = node_ab\<rparr>]
   \<and> invoked (backend_steps tm_plain
        [Answer 0 node_ab, Deliver (reg_on ''value'') None ''a'' (JNumber 5) (JNumber 5),
         Reaction, Reaction]
        (snd (DataReference_on ''value'' (CbUser 7) (world_at ''a''))))
      = [(7, \<lparr>snap_path = ''a'', snap_val = JNumber 5\<rparr>),
         (7, \<lparr>snap_path = ''a'', snap_val = node_ab\<rparr>)]"
  by (simp add: DataReference_on_def DataReference_get_def DataReference_ours_def
      backend_resolve_get_def run_next_job_def EventStream_publish_def Let_def world_at_def
      DataReference_ctor_def trim_slashes_def tm_plain_def reg_on_def)

text \<open>
  C6, amended. \<open>on("child_added", cb)\<close> with a function \<open>cb\<close> registers the backend
  subscription and then issues one read of this Reference. The replay is the second of
  two promise reactions chained on the backend's answer. When it runs on an answer other
  than \<open>null\<close>, one snapshot per own key of the value is published on the stream and passed
  to \<open>cb\<close>, in the order of \<open>Object.keys\<close>: for an object one per property, with the child's
  path and the property's value, and none for a value that is not an object. Live events
  delivered before the replay runs (before the answer, between the answer and the first
  reaction, between the two reactions) come before these snapshots, those delivered
  afterwards come after them.
\<close>

theorem child_added_replay_between_live_events:
  fixes w :: "'t world"
  assumes fresh: "length (promises w) \<notin> fst ` set (thens w)"
    and idle: "jobs w = []"
    and v: "tm_deserialize tm (path (self w)) tv = Inr V"
    and nn: "V \<noteq> JNull"
    and b1: "\<forall>e \<in> set before. \<not> isl (tm_deserialize tm (fst e) (snd e))"
    and b2: "\<forall>e \<in> set mida. \<not> isl (tm_deserialize tm (fst e) (snd e))"
    and b3: "\<forall>e \<in> set midb. \<not> isl (tm_deserialize tm (fst e) (snd e))"
    and as: "\<forall>e \<in> set after. \<not> isl (tm_deserialize tm (fst e) (snd e))"
  shows "(let reg = \<lparr>subscr = length (streams w), original = CbUser n, ours = next_handler w,
                     on_event = ''child_added''\<rparr>;
              w1 = snd (DataReference_on ''child_added'' (CbUser n) w);
              w2 = backend_steps tm
                     (map (deliver_live reg) before @ Answer (length (promises w)) tv
                        # map (deliver_live reg) mida @ Reaction
                        # map (deliver_live reg) midb @ Reaction
                        # map (deliver_live reg) after) w1;
              seen = map (live_snapshot tm (db (self w))) (before @ mida @ midb)
                       @ child_snapshots (self w) V
                       @ map (live_snapshot tm (db (self w))) after
          in fst (DataReference_on ''child_added'' (CbUser n) w) = length (streams w)
             \<and> api w1 = api w @ [ApiSubscribe (path (self w)) ''child_added'' (next_handler w),
                                  ApiGet (path (self w)) JUndefined]
             \<and> invoked w2 = invoked w @ map (Pair n) seen
             \<and> published (streams w2 ! length (streams w)) = seen
             \<and> callbacks (self w2) = callbacks (self w) @ [reg]
             \<and> api w2 = api w1
             \<and> (typeof V \<noteq> ''object'' \<longrightarrow> child_snapshots (self w) V = [])
             \<and> (\<forall>kvs. V = JObject kvs \<longrightarrow>
                   child_snapshots (self w) V
                     = map (\<lambda>k. \<lparr>snap_path = path (DataReference_child (self w) k),
                                  snap_val = (case map_of kvs k of Some c \<Rightarrow> c | None \<Rightarrow> JUndefined)\<rparr>)
                         (map fst kvs)))"
proof -
  have r0: "run_then (ReplayChildAdded (length (streams w)) (CbUser n))
             \<lparr>snap_path = path (self w), snap_val = V\<rparr> w'
           = (Inr (), delivered n (length (streams w)) (child_snapshots (self w) V) w')"
    if "path (self w') = path (self w)" "db (self w') = db (self w)"
      "length (streams w) < length (streams w')" for w' :: "'t world"
    using run_then_child_added_user [where snap = "\<lparr>snap_path = path (self w), snap_val = V\<rparr>"
        and w = w' and sid = "length (streams w)" and n = n] that nn
    by (simp add: child_snapshots_path [OF that(1,2)])
  have r: "\<forall>w' :: 't world. path (self w') = path (self w) \<and> db (self w') = db (self w)
        \<and> length (streams w) < length (streams w')
     \<longrightarrow> run_then (ReplayChildAdded (length (streams w)) (CbUser n))
             \<lparr>snap_path = path (self w), snap_val = V\<rparr> w'
           = (Inr (), delivered n (length (streams w)) (child_snapshots (self w) V) w')"
    using r0 by blast
  have K: "''child_added'' = ''value'' \<and> ReplayChildAdded = ReplayValue
      \<or> ''child_added'' = ''child_added'' \<and> ReplayChildAdded = ReplayChildAdded"
    by simp
  have o: "fst (DataReference_on ''child_added'' (CbUser n) w) = length (streams w)"
    "api (snd (DataReference_on ''child_added'' (CbUser n) w))
       = api w @ [ApiSubscribe (path (self w)) ''child_added'' (next_handler w),
                  ApiGet (path (self w)) JUndefined]"
    by (simp_all add: on_with_replay [where K = ReplayChildAdded])
  have c: "typeof V \<noteq> ''object'' \<longrightarrow> child_snapshots (self w) V = []"
    "\<forall>kvs. V = JObject kvs \<longrightarrow>
                   child_snapshots (self w) V
                     = map (\<lambda>k. \<lparr>snap_path = path (DataReference_child (self w) k),
                                  snap_val = (case map_of kvs k of Some c \<Rightarrow> c | None \<Rightarrow> JUndefined)\<rparr>)
                         (map fst kvs)"
    by (simp_all add: child_snapshots_def)
  note t = replay_trace [where ev = "''child_added''" and K = ReplayChildAdded and w = w and tm = tm
        and tv = tv and V = V and before = before and mida = mida and midb = midb and after = after
        and n = n and R = "child_snapshots (self w) V", OF K fresh idle v b1 b2 b3 as r,
        unfolded Let_def]
  note t1 = t [THEN conjunct1]
  note t2 = t [THEN conjunct2, THEN conjunct1]
  note t3 = t [THEN conjunct2, THEN conjunct2, THEN conjunct1]
  note t4 = t [THEN conjunct2, THEN conjunct2, THEN conjunct2]
  have t5: "api (backend_steps tm
         (map (deliver_live \<lparr>subscr = length (streams w), original = CbUser n,
                 ours = next_handler w, on_event = ''child_added''\<rparr>) before
            @ Answer (length (promises w)) tv
              # map (deliver_live \<lparr>subscr = length (streams w), original = CbUser n,
                 ours = next_handler w, on_event = ''child_added''\<rparr>) mida
            @ Reaction
              # map (deliver_live \<lparr>subscr = length (streams w), original = CbUser n,
                 ours = next_handler w, on_event = ''child_added''\<rparr>) midb
            @ Reaction
              # map (deliver_live \<lparr>subscr = length (streams w), original = CbUser n,
                 ours = next_handler w, on_event = ''child_added''\<rparr>) after)
         (snd (DataReference_on ''child_added'' (CbUser n) w)))
       = api (snd (DataReference_on ''child_added'' (CbUser n) w))"
    by (simp only: t4 o)
  show ?thesis
    unfolding Let_def by (intro conjI o t1 t2 t3 t5 c)
qed

theorem child_added_replay_between_live_events_witness:
  "length (promises (world_at ''a'')) \<notin> fst ` set (thens (world_at ''a''))
   \<and> jobs (world_at ''a'') = []
   \<and> tm_deserialize tm_plain (path (self (world_at ''a''))) node_k1k2 = Inr node_k1k2
   \<and> node_k1k2 \<noteq> JNull
   \<and> api (snd (DataReference_on ''child_added'' (CbUser 7) (world_at ''a'')))
        = [ApiSubscribe ''a'' ''child_added'' 0, ApiGet ''a'' JUndefined]
   \<and> invoked (backend_steps tm_plain
        [Answer 0 node_k1k2, Reaction, Reaction,
         Deliver (reg_on ''child_added'') None ''a/k3'' (JNumber 3) (JNumber 3)]
        (snd (DataReference_on ''child_added'' (CbUser 7) (world_at ''a''))))
      = [(7, \<lparr>snap_path = ''a/k1'', snap_val = JNumber 1\<rparr>),
         (7, \<lparr>snap_path = ''a/k2'', snap_val = JNumber 2\<rparr>),
         (7, \<lparr>snap_path = ''a/k3'', snap_val = JNumber 3\<rparr>)]
   \<and> published (streams (backend_steps tm_plain
        [Answer 0 node_k1k2, Reaction, Reaction,
         Deliver (reg_on ''child_added'') None ''a/k3'' (JNumber 3) (JNumber 3)]
        (snd (DataReference_on ''child_added'' (CbUser 7) (world_at ''a'')))) ! 0)
      = [\<lparr>snap_path = ''a/k1'', snap_val = JNumber 1\<rparr>,
         \<lparr>snap_path = ''a/k2'', snap_val = JNumber 2\<rparr>,
         \<lparr>snap_path = ''a/k3'', snap_val = JNumber 3\<rparr>]"
proof -
  have h1: "length (promises (world_at ''a'')) \<notin> fst ` set (thens (world_at ''a''))"
    by (simp add: world_at_fields)
  have h0: "jobs (world_at ''a'') = []"
    by (simp add: world_at_fields)
  have h2: "tm_deserialize tm_plain (path (self (world_at ''a''))) node_k1k2 = Inr node_k1k2"
    by (simp add: tm_plain_def)
  have h3: "\<forall>e \<in> set []. \<not> isl (tm_deserialize tm_plain (fst e) (snd e))"
    by simp
  have h4: "\<forall>e \<in> set [(''a/k3'', JNumber 3)]. \<not> isl (tm_deserialize tm_plain (fst e) (snd e))"
    by (simp add: tm_plain_def)
  have h5: "node_k1k2 \<noteq> JNull"
    by (simp add: node_k1k2_def)
  have cs: "child_snapshots (self (world_at ''a'')) node_k1k2
      = [\<lparr>snap_path = ''a/k1'', snap_val = JNumber 1\<rparr>, \<lparr>snap_path = ''a/k2'', snap_val = JNumber 2\<rparr>]"
    by (simp add: child_snapshots_def node_k1k2_def DataReference_child_def ctor_fields
        world_at_fields trim_slashes_def)
  have tr: "trim_slashes ''a/k3'' = ''a/k3''"
    by (simp add: trim_slashes_def)
  note t = child_added_replay_between_live_events [where w = "world_at ''a''" and tm = tm_plain
      and tv = node_k1k2 and V = node_k1k2 and before = "[]" and mida = "[]" and midb = "[]"
      and after = "[(''a/k3'', JNumber 3)]" and n = 7, OF h1 h0 h2 h5 h3 h3 h3 h4, unfolded Let_def]
  show ?thesis
    using t h1 h0 h2 h5
    by (simp add: world_at_fields trim_a deliver_live_def reg_on_def live_snapshot_def tm_plain_def
        ctor_fields cs tr)
qed

text \<open>The claim as stated fails: on \<open>null\<close> the replay throws a \<open>TypeError\<close> from
  \<open>Object.keys(null)\<close>, and a live event delivered before the replay runs, before or after
  the answer of the read, comes before the synthetic snapshots.\<close>

theorem child_added_replay_fails_on_null_and_follows_live_event:
  "fst (run_next_job tm_plain (backend_steps tm_plain [Answer 0 JNull, Reaction]
          (snd (DataReference_on ''child_added'' (CbUser 7) (world_at ''a''))))) = Inl TypeError
   \<and> invoked (backend_steps tm_plain
        [Deliver (reg_on ''child_added'') None ''a/k3'' (JNumber 3) (JNumber 3), Answer 0 node_k1k2,
         Reaction, Reaction]
        (snd (DataReference_on ''child_added'' (CbUser 7) (world_at ''a''))))
      = [(7, \<lparr>snap_path = ''a/k3'', snap_val = JNumber 3\<rparr>),
         (7, \<lparr>snap_path = ''a/k1'', snap_val = JNumber 1\<rparr>),
         (7, \<lparr>snap_path = ''a/k2'', snap_val = JNumber 2\<rparr>)]
   \<and> invoked (backend_steps tm_plain
        [Answer 0 node_k1k2, Deliver (reg_on ''child_added'') None ''a/k3'' (JNumber 3) (JNumber 3),
         Reaction, Reaction]
        (snd (DataReference_on ''child_added'' (CbUser 7) (world_at ''a''))))
      = [(7, \<lparr>snap_path = ''a/k3'', snap_val = JNumber 3\<rparr>),
         (7, \<lparr>snap_path = ''a/k1'', snap_val = JNumber 1\<rparr>),
         (7, \<lparr>snap_path = ''a/k2'', snap_val = JNumber 2\<rparr>)]"
  by (simp add: DataReference_on_def DataReference_get_def DataReference_ours_def
      backend_resolve_get_def run_next_job_def EventStream_publish_def Let_def world_at_def
      DataReference_ctor_def DataReference_child_def trim_slashes_def tm_plain_def reg_on_def
      node_k1k2_def)

section \<open>Decimal numerals\<close>







section \<open>The keys of an array\<close>






section \<open>Reading and writing a property of a composite value\<close>







section \<open>Restoring one tagged location\<close>




lemma tagged_keys_leaf:
  "\<not> is_composite v \<Longrightarrow> tagged_keys v = (case leaf_tag v of None \<Rightarrow> [] | Some ty \<Rightarrow> [([], ty)])"
  by (subst tagged_keys.simps) simp








section \<open>Paths of the map\<close>




lemma split_slash_nonempty: "split_slash s \<noteq> []"
  by (induction s) (auto split: list.splits)







section \<open>The tagged locations of a supported value\<close>



section \<open>Assignments to the map\<close>









section \<open>What process does\<close>








section \<open>Restoring every tagged location\<close>




section \<open>The round trip of the transport codec\<close>






lemma tagged_keys_plain [simp]:
  "tagged_keys (JString s) = []" "tagged_keys (JNumber n) = []"
  "tagged_keys (JDate d) = [([], ''date'')]"
  by (simp_all add: tagged_keys_leaf)




end
